theory Spec2Isabelle
  imports Main "HOL-Library.Word"
begin

unbundle bit_operations_syntax

section \<open>Machine integers, panics and errors\<close>

text \<open>
  The fixed-width types of the source are words. Go's \<open>int\<close> is taken at its width on
  the 64-bit targets: a value of \<open>int\<close> is modelled as a HOL integer, and every place
  where the source multiplies or adds two of them applies \<open>int64\<close>, the two's complement
  wrap-around, to the result.
\<close>

type_synonym uint8 = "8 word"
type_synonym uint32 = "32 word"

definition int64 :: "int \<Rightarrow> int" where
  "int64 n = (n + 2 ^ 63) mod 2 ^ 64 - 2 ^ 63"

text \<open>Go's \<open>/\<close> and \<open>%\<close> on integers truncate towards zero.\<close>

definition quo :: "int \<Rightarrow> int \<Rightarrow> int" where
  "quo a b = sgn a * sgn b * (\<bar>a\<bar> div \<bar>b\<bar>)"

definition rem :: "int \<Rightarrow> int \<Rightarrow> int" where
  "rem a b = sgn a * (\<bar>a\<bar> mod \<bar>b\<bar>)"

text \<open>
  A call either returns its results or does not return: it panics (a length that \<open>make\<close>
  refuses, an index out of range, a division by zero), or the runtime stops the program
  because the memory asked for is not there.
\<close>

datatype 'a outcome = Panics | Returns 'a

text \<open>
  The error values: the three \<open>errors.New\<close> of the package, the failures of the
  operating system, the errors of gzip (a header that is none, a checksum that does not
  match, compressed data that is corrupt) and the two errors of \<open>io\<close>.
\<close>

datatype error =
    NoData            \<comment> \<open>"Image has no data."\<close>
  | OutOfBounds       \<comment> \<open>"x, y coordinates out of bounds."\<close>
  | NotXP             \<comment> \<open>"File is not an XP image."\<close>
  | OpenFailed
  | CreateFailed
  | GzipHeader
  | ErrChecksum
  | CorruptInput
  | EOF
  | ErrUnexpectedEOF

section \<open>CellData\<close>

record CellData =
  Glyph :: uint32
  R_f :: uint8
  G_f :: uint8
  B_f :: uint8
  R_b :: uint8
  G_b :: uint8
  B_b :: uint8

text \<open>The zero value \<open>CellData{}\<close>.\<close>

definition CellData_zero :: CellData where
  "CellData_zero = \<lparr>Glyph = 0, R_f = 0, G_f = 0, B_f = 0, R_b = 0, G_b = 0, B_b = 0\<rparr>"

definition ARGB :: "CellData \<Rightarrow> uint32 \<times> uint32" where
  "ARGB cd =
     (push_bit 24 0xFF OR push_bit 16 (ucast (R_f cd)) OR push_bit 8 (ucast (G_f cd))
        OR ucast (B_f cd),
      push_bit 24 0xFF OR push_bit 16 (ucast (R_b cd)) OR push_bit 8 (ucast (G_b cd))
        OR ucast (B_b cd))"

definition SetColoursARGB :: "CellData \<Rightarrow> uint32 \<Rightarrow> uint32 \<Rightarrow> CellData" where
  "SetColoursARGB cd fore back =
     (if (ucast (drop_bit 24 back) :: uint8) = 0
      then cd\<lparr>B_b := 0xFF, G_b := 0, R_b := 0xFF\<rparr>
      else cd\<lparr>B_f := ucast (fore AND 0xFF),
              G_f := ucast (drop_bit 8 fore AND 0xFF),
              R_f := ucast (drop_bit 16 fore AND 0xFF),
              B_b := ucast (back AND 0xFF),
              G_b := ucast (drop_bit 8 back AND 0xFF),
              R_b := ucast (drop_bit 16 back AND 0xFF)\<rparr>)"

definition RGBA :: "CellData \<Rightarrow> uint32 \<times> uint32" where
  "RGBA cd =
     (push_bit 24 (ucast (R_f cd)) OR push_bit 16 (ucast (G_f cd)) OR push_bit 8 (ucast (B_f cd))
        OR 0xFF,
      push_bit 24 (ucast (R_b cd)) OR push_bit 16 (ucast (G_b cd)) OR push_bit 8 (ucast (B_b cd))
        OR 0xFF)"

definition SetColoursRGBA :: "CellData \<Rightarrow> uint32 \<Rightarrow> uint32 \<Rightarrow> CellData" where
  "SetColoursRGBA cd fore back =
     (if (ucast (back AND 0xFF) :: uint8) = 0
      then cd\<lparr>R_b := 0xFF, G_b := 0, B_b := 0xFF\<rparr>
      else cd\<lparr>B_f := ucast (drop_bit 8 fore AND 0xFF),
              G_f := ucast (drop_bit 16 fore AND 0xFF),
              R_f := ucast (drop_bit 24 fore AND 0xFF),
              B_b := ucast (drop_bit 8 back AND 0xFF),
              G_b := ucast (drop_bit 16 back AND 0xFF),
              R_b := ucast (drop_bit 24 back AND 0xFF)\<rparr>)"

definition Undrawn :: "CellData \<Rightarrow> bool" where
  "Undrawn cd \<longleftrightarrow> R_b cd = 255 \<and> G_b cd = 0 \<and> B_b cd = 255"

definition Clear :: "CellData \<Rightarrow> CellData" where
  "Clear cd = cd\<lparr>Glyph := 0, R_b := 0xFF, G_b := 0, B_b := 0xFF, R_f := 0, G_f := 0, B_f := 0\<rparr>"

section \<open>ImageData\<close>

record ImageData =
  Width :: int
  Height :: int
  Cells :: "CellData list"

text \<open>The zero value \<open>ImageData{}\<close>: no width, no height, a nil slice.\<close>

definition ImageData_zero :: ImageData where
  "ImageData_zero = \<lparr>Width = 0, Height = 0, Cells = []\<rparr>"

text \<open>
  \<open>make([]CellData, n)\<close>. The runtime panics ("makeslice: len out of range") when \<open>n\<close> is
  negative or the \<open>n\<close> elements, twelve bytes each (a \<open>uint32\<close> and six \<open>uint8\<close>, aligned
  to four), are more than \<open>maxAlloc\<close> bytes, which is \<open>2^48\<close> on the 64-bit targets. Below
  that the slice exists when the machine has the memory: \<open>heap\<close>, a parameter of the
  model, is the largest number of cells that the machine gives to one slice.
\<close>

definition maxAlloc :: int where
  "maxAlloc = 2 ^ 48"

definition make_returns :: "nat \<Rightarrow> int \<Rightarrow> bool" where
  "make_returns heap n \<longleftrightarrow> 0 \<le> n \<and> n * 12 \<le> maxAlloc \<and> n \<le> int heap"

text \<open>Each element of the new slice starts as the zero value and is then cleared.\<close>

definition Init :: "nat \<Rightarrow> ImageData \<Rightarrow> int \<Rightarrow> int \<Rightarrow> ImageData outcome" where
  "Init heap img width height =
     (let n = int64 (width * height) in
      if \<not> make_returns heap n then Panics
      else Returns (img\<lparr>Width := width, Height := height,
                       Cells := map Clear (replicate (nat n) CellData_zero)\<rparr>))"

text \<open>
  \<open>GetCell\<close> returns the pair \<open>(cd, err)\<close>; on an error \<open>cd\<close> is still the zero value.
  Indexing the slice outside its length panics.
\<close>

definition GetCell :: "ImageData \<Rightarrow> int \<Rightarrow> int \<Rightarrow> (CellData \<times> error option) outcome" where
  "GetCell img x y =
     (if length (Cells img) = 0 then Returns (CellData_zero, Some NoData)
      else if x \<ge> Width img \<or> y \<ge> Height img \<or> x < 0 \<or> y < 0
      then Returns (CellData_zero, Some OutOfBounds)
      else let i = int64 (x + int64 (y * Width img)) in
        if i < 0 \<or> i \<ge> int (length (Cells img)) then Panics
        else Returns (Cells img ! nat i, None))"

text \<open>\<open>SetCell\<close> has a pointer receiver: it returns the image as it leaves it, and the error.\<close>

definition SetCell :: "ImageData \<Rightarrow> int \<Rightarrow> int \<Rightarrow> CellData \<Rightarrow> (ImageData \<times> error option) outcome" where
  "SetCell img x y cell =
     (if x \<ge> Width img \<or> y \<ge> Height img \<or> x < 0 \<or> y < 0
      then Returns (img, Some OutOfBounds)
      else let i = int64 (x + int64 (y * Width img)) in
        if i < 0 \<or> i \<ge> int (length (Cells img)) then Panics
        else Returns (img\<lparr>Cells := (Cells img)[nat i := cell]\<rparr>, None))"

section \<open>The binary layout: \<open>encoding/binary\<close> with \<open>binary.LittleEndian\<close>\<close>

text \<open>
  The gzip reader is the list \<open>data\<close> of the bytes it still has to give and the error
  \<open>fin\<close> that it returns after them, on every call: \<open>EOF\<close> at the end of a complete
  stream, \<open>ErrUnexpectedEOF\<close> where the compressed file breaks off, \<open>ErrChecksum\<close> or
  \<open>CorruptInput\<close> where it does not check. \<open>io.ReadFull\<close> hands out exactly \<open>n\<close> bytes and
  no error, or takes what is left and fails with the error of the reader, but for \<open>EOF\<close>
  after some bytes, which it turns into \<open>ErrUnexpectedEOF\<close>.
\<close>

definition ReadFull :: "error \<Rightarrow> uint8 list \<Rightarrow> nat \<Rightarrow> uint8 list \<times> uint8 list \<times> error option" where
  "ReadFull fin data n =
     (if n \<le> length data then (drop n data, take n data, None)
      else ([], data, Some (if data \<noteq> [] \<and> fin = EOF then ErrUnexpectedEOF else fin)))"

definition Uint32 :: "uint8 list \<Rightarrow> uint32" where
  "Uint32 b = ucast (b ! 0) OR push_bit 8 (ucast (b ! 1)) OR push_bit 16 (ucast (b ! 2))
                OR push_bit 24 (ucast (b ! 3))"

definition PutUint32 :: "uint32 \<Rightarrow> uint8 list" where
  "PutUint32 v = [ucast v, ucast (drop_bit 8 v), ucast (drop_bit 16 v), ucast (drop_bit 24 v)]"

text \<open>
  \<open>binary.Read(data, binary.LittleEndian, &v)\<close> for a 32-bit \<open>v\<close> and for a \<open>CellData\<close>: the
  result is the stream after the read, the value of \<open>v\<close> after the call (the old one when
  the read fails) and the error. A \<open>CellData\<close> is ten bytes, its fields in declaration order.
\<close>

definition Read_uint32 :: "error \<Rightarrow> uint8 list \<Rightarrow> uint32 \<Rightarrow> uint8 list \<times> uint32 \<times> error option" where
  "Read_uint32 fin data v =
     (case ReadFull fin data 4 of
        (data', bs, None) \<Rightarrow> (data', Uint32 bs, None)
      | (data', bs, Some e) \<Rightarrow> (data', v, Some e))"

definition Read_CellData :: "error \<Rightarrow> uint8 list \<Rightarrow> CellData \<Rightarrow> uint8 list \<times> CellData \<times> error option" where
  "Read_CellData fin data c =
     (case ReadFull fin data 10 of
        (data', bs, None) \<Rightarrow>
          (data',
           \<lparr>Glyph = Uint32 (take 4 bs), R_f = bs ! 4, G_f = bs ! 5, B_f = bs ! 6,
            R_b = bs ! 7, G_b = bs ! 8, B_b = bs ! 9\<rparr>,
           None)
      | (data', bs, Some e) \<Rightarrow> (data', c, Some e))"

text \<open>\<open>binary.Write\<close> into a \<open>bytes.Buffer\<close> appends the bytes below and does not fail.\<close>

definition Write_uint32 :: "uint32 \<Rightarrow> uint8 list" where
  "Write_uint32 v = PutUint32 v"

definition Write_CellData :: "CellData \<Rightarrow> uint8 list" where
  "Write_CellData c = PutUint32 (Glyph c) @ [R_f c, G_f c, B_f c, R_b c, G_b c, B_b c]"

section \<open>Import\<close>

text \<open>
  What a pass through a loop body of \<open>Import\<close> ends in: a panic, the \<open>return\<close> inside the
  loop, or the end of the loop with the stream, the image and \<open>err\<close> as they are then.
\<close>

datatype flow =
    Panicked
  | Returned ImageData "error option"
  | Goes_on "uint8 list" ImageData "error option"

text \<open>\<open>for i := range image.Width * image.Height\<close>, over the values of \<open>i\<close>.\<close>

fun cells_loop :: "error \<Rightarrow> nat list \<Rightarrow> uint8 list \<Rightarrow> ImageData \<Rightarrow> error option \<Rightarrow> flow" where
  "cells_loop fin [] data img err = Goes_on data img err"
| "cells_loop fin (i # is) data img err =
     (case Read_CellData fin data CellData_zero of
        (data', c, err') \<Rightarrow>
          if err' \<noteq> None then Returned img err'
          else if Height img = 0 then Panicked
          else (case SetCell img (quo (int i) (Height img)) (rem (int i) (Height img)) c of
                  Panics \<Rightarrow> Panicked
                | Returns (img', _) \<Rightarrow> cells_loop fin is data' img' err'))"

text \<open>
  \<open>for layer := range int(numLayers)\<close>, over the values of \<open>layer\<close>. The dimensions read
  for a later layer go to \<open>w\<close> and \<open>h\<close>, which nothing reads afterwards; their errors are
  assigned to \<open>err\<close> and not tested.
\<close>

fun layers_loop :: "error \<Rightarrow> nat list \<Rightarrow> uint8 list \<Rightarrow> ImageData \<Rightarrow> error option
    \<Rightarrow> (ImageData \<times> error option) outcome" where
  "layers_loop fin [] data img err = Returns (img, err)"
| "layers_loop fin (layer # ls) data img err =
     (case (if layer \<noteq> 0
            then (case Read_uint32 fin data 0 of
                    (data1, w, err1) \<Rightarrow>
                      (case Read_uint32 fin data1 0 of (data2, h, err2) \<Rightarrow> (data2, err2)))
            else (data, err)) of
        (data', err') \<Rightarrow>
          (case cells_loop fin [0..<nat (int64 (Width img * Height img))] data' img err' of
             Panicked \<Rightarrow> Panics
           | Returned img' err'' \<Rightarrow> Returns (img', err'')
           | Goes_on data'' img' err'' \<Rightarrow> layers_loop fin ls data'' img' err''))"

text \<open>\<open>Import\<close> from the point where the gzip reader \<open>data\<close> exists.\<close>

definition Import_data :: "nat \<Rightarrow> error \<Rightarrow> uint8 list \<Rightarrow> ImageData
    \<Rightarrow> (ImageData \<times> error option) outcome" where
  "Import_data heap fin data img =
     (case Read_uint32 fin data 0 of (data, version, err) \<Rightarrow>
     (case Read_uint32 fin data 0 of (data, numLayers, err) \<Rightarrow>
        if err \<noteq> None then Returns (img, err)
        else
          (case Read_uint32 fin data 0 of (data, w, err) \<Rightarrow>
          (case Read_uint32 fin data 0 of (data, h, err) \<Rightarrow>
             if err \<noteq> None then Returns (img, err)
             else
               (case Init heap img (uint w) (uint h) of
                  Panics \<Rightarrow> Panics
                | Returns img \<Rightarrow> layers_loop fin [0..<unat numLayers] data img err)))))"

text \<open>
  The operating system and gzip are outside the package. A file is either a gzip stream,
  given by the bytes that its reader gives and the error that the reader returns after
  them, or something \<open>gzip.NewReader\<close> rejects; \<open>os.Open\<close> fails on a path with no file,
  \<open>os.Create\<close> on a path that cannot be created.
\<close>

datatype disk_file = Gzip "uint8 list" error | Not_gzip

record os =
  files :: "string \<Rightarrow> disk_file option"
  creatable :: "string \<Rightarrow> bool"

definition HasSuffix :: "string \<Rightarrow> string \<Rightarrow> bool" where
  "HasSuffix s suffix \<longleftrightarrow>
     length s \<ge> length suffix \<and> drop (length s - length suffix) s = suffix"

definition Import :: "nat \<Rightarrow> string \<Rightarrow> os \<Rightarrow> (ImageData \<times> error option) outcome" where
  "Import heap path fs =
     (let img = ImageData_zero in
      if \<not> HasSuffix path ''.xp'' then Returns (img, Some NotXP)
      else (case files fs path of
              None \<Rightarrow> Returns (img, Some OpenFailed)
            | Some Not_gzip \<Rightarrow> Returns (img, Some GzipHeader)
            | Some (Gzip data fin) \<Rightarrow> Import_data heap fin data img))"

section \<open>Export\<close>

text \<open>The two loops of \<open>Export\<close>, over the values of \<open>y\<close> and of \<open>x\<close>, appending to \<open>imagebuffer\<close>.\<close>

fun y_loop :: "ImageData \<Rightarrow> int \<Rightarrow> nat list \<Rightarrow> uint8 list \<Rightarrow> uint8 list outcome" where
  "y_loop img x [] imagebuffer = Returns imagebuffer"
| "y_loop img x (y # ys) imagebuffer =
     (case GetCell img x (int y) of
        Panics \<Rightarrow> Panics
      | Returns (cell, _) \<Rightarrow> y_loop img x ys (imagebuffer @ Write_CellData cell))"

fun x_loop :: "ImageData \<Rightarrow> nat list \<Rightarrow> uint8 list \<Rightarrow> uint8 list outcome" where
  "x_loop img [] imagebuffer = Returns imagebuffer"
| "x_loop img (x # xs) imagebuffer =
     (case y_loop img (int x) [0..<nat (Height img)] imagebuffer of
        Panics \<Rightarrow> Panics
      | Returns imagebuffer' \<Rightarrow> x_loop img xs imagebuffer')"

definition Export_imagebuffer :: "ImageData \<Rightarrow> uint8 list outcome" where
  "Export_imagebuffer img =
     x_loop img [0..<nat (Width img)]
       (Write_uint32 (- 1) @ Write_uint32 1 @ Write_uint32 (word_of_int (Width img))
          @ Write_uint32 (word_of_int (Height img)))"

text \<open>
  \<open>Export\<close> creates the file first and fills the buffer then; the gzip writer is closed on
  the way out, and writing to the created file is taken to succeed: the file is then a
  complete gzip stream of the buffer.
\<close>

definition Export :: "ImageData \<Rightarrow> string \<Rightarrow> os \<Rightarrow> (os \<times> error option) outcome" where
  "Export img path fs =
     (let path = (if \<not> HasSuffix path ''.xp'' then path @ ''.xp'' else path) in
      if \<not> creatable fs path then Returns (fs, Some CreateFailed)
      else (case Export_imagebuffer img of
              Panics \<Rightarrow> Panics
            | Returns bytes \<Rightarrow>
                Returns (fs\<lparr>files := (files fs)(path \<mapsto> Gzip bytes EOF)\<rparr>, None)))"

section \<open>Notions used in the statements\<close>

text \<open>
  The comment on \<open>Cells\<close> in the source: it "will have Width*Height Elements". The cells
  are as many as the product of the width and the height, the product of the integers.
\<close>

definition invariant :: "ImageData \<Rightarrow> bool" where
  "invariant img \<longleftrightarrow> int (length (Cells img)) = Width img * Height img"

text \<open>
  An image whose dimensions are not negative and whose cells are as many as their product,
  in a slice that exists: one of a length that \<open>make\<close> gives.
\<close>

definition well_formed :: "nat \<Rightarrow> ImageData \<Rightarrow> bool" where
  "well_formed heap img \<longleftrightarrow>
     0 \<le> Width img \<and> 0 \<le> Height img \<and> int (length (Cells img)) = Width img * Height img
       \<and> make_returns heap (int (length (Cells img)))"

text \<open>The 32-bit value made of four bytes, the most significant first.\<close>

definition bytes32 :: "uint8 \<Rightarrow> uint8 \<Rightarrow> uint8 \<Rightarrow> uint8 \<Rightarrow> uint32" where
  "bytes32 b3 b2 b1 b0 =
     push_bit 24 (ucast b3) OR push_bit 16 (ucast b2) OR push_bit 8 (ucast b1) OR ucast b0"

text \<open>
  The stream of a file with the given layers, each with the two dimension fields it stores
  and its cell records in stored order.
\<close>

type_synonym layer = "uint32 \<times> uint32 \<times> CellData list"

definition layer_bytes :: "layer \<Rightarrow> uint8 list" where
  "layer_bytes l =
     (case l of (w, h, cs) \<Rightarrow> PutUint32 w @ PutUint32 h @ concat (map Write_CellData cs))"

definition xp_bytes :: "uint32 \<Rightarrow> layer list \<Rightarrow> uint8 list" where
  "xp_bytes version layers =
     PutUint32 version @ PutUint32 (word_of_nat (length layers)) @ concat (map layer_bytes layers)"



text \<open>A cell for the examples: the glyph \<open>g\<close> in white on black.\<close>

definition glyph_cell :: "uint32 \<Rightarrow> CellData" where
  "glyph_cell g = \<lparr>Glyph = g, R_f = 255, G_f = 255, B_f = 255, R_b = 0, G_b = 0, B_b = 0\<rparr>"

section \<open>Notions used in the proofs\<close>

text \<open>
  Record \<open>k\<close> of a layer goes to \<open>x = k / Height\<close>, \<open>y = k % Height\<close>, which is the element
  \<open>x + y * Width\<close> of \<open>Cells\<close>; \<open>record_of\<close> goes back from the element to the record.
\<close>

definition slot :: "nat \<Rightarrow> nat \<Rightarrow> nat \<Rightarrow> nat" where
  "slot W H k = k div H + (k mod H) * W"

definition record_of :: "nat \<Rightarrow> nat \<Rightarrow> nat \<Rightarrow> nat" where
  "record_of W H p = (p mod W) * H + p div W"

text \<open>The cells after the records \<open>cs\<close>, the first of them record \<open>a\<close>, have been set.\<close>

fun place :: "nat \<Rightarrow> nat \<Rightarrow> nat \<Rightarrow> CellData list \<Rightarrow> CellData list \<Rightarrow> CellData list" where
  "place W H a [] xs = xs"
| "place W H a (c # cs) xs = place W H (Suc a) cs (xs[slot W H a := c])"

text \<open>The cells of a layer in the order of \<open>Cells\<close>.\<close>

definition row_major :: "nat \<Rightarrow> nat \<Rightarrow> CellData list \<Rightarrow> CellData list" where
  "row_major W H cs = map (\<lambda>p. cs ! record_of W H p) [0..<W * H]"

text \<open>Two images of the same dimensions and number of cells.\<close>

definition same_shape :: "ImageData \<Rightarrow> ImageData \<Rightarrow> bool" where
  "same_shape img img' \<longleftrightarrow>
     Width img' = Width img \<and> Height img' = Height img
       \<and> length (Cells img') = length (Cells img)"

section \<open>Integers and bytes\<close>

lemma int64_id: "- (2 ^ 63) \<le> n \<Longrightarrow> n < 2 ^ 63 \<Longrightarrow> int64 n = n"
  by (simp add: int64_def)

lemma int64_neg: "2 ^ 63 \<le> n \<Longrightarrow> n < 2 ^ 64 \<Longrightarrow> int64 n < 0"
proof -
  assume a: "2 ^ 63 \<le> n" "n < 2 ^ 64"
  have "(n + 2 ^ 63) mod 2 ^ 64 = n + 2 ^ 63 - 2 ^ 64"
    using a by (simp add: mod_pos_geq)
  then show ?thesis using a by (simp add: int64_def)
qed

lemma quo_nonneg: "0 \<le> a \<Longrightarrow> 0 < b \<Longrightarrow> quo a b = a div b"
  by (cases "a = 0") (simp_all add: quo_def)

lemma rem_nonneg: "0 \<le> a \<Longrightarrow> 0 < b \<Longrightarrow> rem a b = a mod b"
  by (cases "a = 0") (simp_all add: rem_def)

lemma Uint32_PutUint32: "Uint32 (PutUint32 v @ bs) = v"
proof (rule bit_word_eqI)
  fix n assume "n < LENGTH(32)"
  then have n: "n < 32" by simp
  consider "n < 8" | "8 \<le> n" "n < 16" | "16 \<le> n" "n < 24" | "24 \<le> n" "n < 32"
    using n by linarith
  then show "bit (Uint32 (PutUint32 v @ bs)) n = bit v n"
  proof cases
    case 1
    then show ?thesis by (auto simp: Uint32_def PutUint32_def bit_simps)
  next
    case 2
    then show ?thesis by (auto simp: Uint32_def PutUint32_def bit_simps)
  next
    case 3
    then show ?thesis by (auto simp: Uint32_def PutUint32_def bit_simps)
  next
    case 4
    then show ?thesis by (auto simp: Uint32_def PutUint32_def bit_simps)
  qed
qed

lemma length_PutUint32: "length (PutUint32 v) = 4"
  by (simp add: PutUint32_def)

lemma Read_uint32_PutUint32: "Read_uint32 fin (PutUint32 v @ rest) old = (rest, v, None)"
proof -
  have "take 4 (PutUint32 v @ rest) = PutUint32 v" "drop 4 (PutUint32 v @ rest) = rest"
    by (simp_all add: length_PutUint32)
  moreover have "Uint32 (PutUint32 v) = v"
    using Uint32_PutUint32 [of v "[]"] by simp
  ultimately show ?thesis
    by (simp add: Read_uint32_def ReadFull_def length_PutUint32)
qed

lemma length_Write_CellData: "length (Write_CellData c) = 10"
  by (simp add: Write_CellData_def PutUint32_def)

lemma Read_CellData_Write_CellData:
  "Read_CellData fin (Write_CellData c @ rest) old = (rest, c, None)"
proof -
  have t: "take 10 (Write_CellData c @ rest) = Write_CellData c"
    and d: "drop 10 (Write_CellData c @ rest) = rest"
    by (simp_all add: length_Write_CellData)
  have g: "Uint32 (take 4 (Write_CellData c)) = Glyph c"
    using Uint32_PutUint32 [of "Glyph c" "[]"]
    by (simp add: Write_CellData_def length_PutUint32)
  have n: "Write_CellData c ! 4 = R_f c" "Write_CellData c ! 5 = G_f c"
    "Write_CellData c ! 6 = B_f c" "Write_CellData c ! 7 = R_b c"
    "Write_CellData c ! 8 = G_b c" "Write_CellData c ! 9 = B_b c"
    by (simp_all add: Write_CellData_def PutUint32_def)
  show ?thesis
    by (simp add: Read_CellData_def ReadFull_def length_Write_CellData t d g n)
qed

section \<open>Records and cells: the two orders\<close>

lemma slot_less:
  assumes "k < W * H"
  shows "slot W H k < W * H"
proof -
  have H: "0 < H" using assms by (cases H) auto
  have a: "k div H < W" using assms by (simp add: less_mult_imp_div_less)
  have "k mod H < H" using H by simp
  then have "k mod H \<le> H - 1" by simp
  then have "(k mod H) * W \<le> (H - 1) * W" by (rule mult_le_mono1)
  then have "k div H + (k mod H) * W < W + (H - 1) * W" using a by linarith
  also have "W + (H - 1) * W = W * H" using H by (cases H) simp_all
  finally show ?thesis by (simp add: slot_def)
qed

lemma record_of_less:
  assumes "p < W * H"
  shows "record_of W H p < W * H"
proof -
  have "slot H W p < H * W" using assms by (intro slot_less) (simp add: mult.commute)
  then show ?thesis by (simp add: slot_def record_of_def mult.commute add.commute)
qed

lemma slot_record_of:
  assumes "p < W * H"
  shows "slot W H (record_of W H p) = p"
proof -
  have b: "p div W < H" using assms by (simp add: less_mult_imp_div_less mult.commute)
  have "(p mod W * H + p div W) div H = p mod W" using b by simp
  moreover have "(p mod W * H + p div W) mod H = p div W" using b by simp
  ultimately show ?thesis by (simp add: slot_def record_of_def)
qed

lemma record_of_slot:
  assumes "k < W * H"
  shows "record_of W H (slot W H k) = k"
proof -
  have b: "k div H < W" using assms by (simp add: less_mult_imp_div_less)
  have "(k mod H * W + k div H) div W = k mod H" using b by simp
  moreover have "(k mod H * W + k div H) mod W = k div H" using b by simp
  ultimately show ?thesis by (simp add: slot_def record_of_def add.commute)
qed

section \<open>Access to the cells of a well-formed image\<close>

lemma index_in_range:
  assumes "x < W" "y < H" "W * H < 2 ^ 63"
  shows "int64 (int x + int64 (int y * int W)) = int (x + y * W)" "x + y * W < W * H"
proof -
  have "y \<le> H - 1" using assms by simp
  then have "y * W \<le> (H - 1) * W" by (rule mult_le_mono1)
  then have "x + y * W < W + (H - 1) * W" using assms by linarith
  also have "W + (H - 1) * W = W * H" using assms by (cases H) simp_all
  finally show lt: "x + y * W < W * H" .
  then have "x + y * W < 2 ^ 63" using assms(3) by (rule less_trans)
  then have "int (x + y * W) < int (2 ^ 63)" by (simp only: of_nat_less_iff)
  then have b: "int x + int y * int W < 2 ^ 63" by simp
  have c: "0 \<le> int y * int W" by simp
  then have "int y * int W < 2 ^ 63" using b by linarith
  then have "int64 (int y * int W) = int y * int W"
    using c by (simp add: int64_def)
  then show "int64 (int x + int64 (int y * int W)) = int (x + y * W)"
    using b c by (simp add: int64_def)
qed

lemma SetCell_in_range:
  assumes "Width img = int W" "Height img = int H" "length (Cells img) = W * H"
    and "W * H < 2 ^ 63" "x < W" "y < H"
  shows "SetCell img (int x) (int y) c = Returns (img\<lparr>Cells := (Cells img)[x + y * W := c]\<rparr>, None)"
proof -
  note i = index_in_range [OF assms(5,6,4)]
  show ?thesis
    unfolding SetCell_def Let_def assms(1,2) i(1)
    using i(2) assms(3,5,6) by (simp del: of_nat_add of_nat_mult)
qed

lemma GetCell_in_range:
  assumes "Width img = int W" "Height img = int H" "length (Cells img) = W * H"
    and "W * H < 2 ^ 63" "x < W" "y < H"
  shows "GetCell img (int x) (int y) = Returns (Cells img ! (x + y * W), None)"
proof -
  note i = index_in_range [OF assms(5,6,4)]
  show ?thesis
    unfolding GetCell_def Let_def assms(1,2) i(1)
    using i(2) assms(3,5,6) by (simp del: of_nat_add of_nat_mult)
qed

lemma SetCell_record:
  assumes "Width img = int W" "Height img = int H" "length (Cells img) = W * H"
    and "W * H < 2 ^ 63" "k < W * H"
  shows "SetCell img (quo (int k) (Height img)) (rem (int k) (Height img)) c
       = Returns (img\<lparr>Cells := (Cells img)[slot W H k := c]\<rparr>, None)"
proof -
  have H: "0 < H" using assms(5) by (cases H) auto
  have q: "quo (int k) (Height img) = int (k div H)"
    using H assms(2) by (simp add: quo_nonneg zdiv_int)
  have r: "rem (int k) (Height img) = int (k mod H)"
    using H assms(2) by (simp add: rem_nonneg zmod_int)
  have "k div H < W" using assms(5) by (simp add: less_mult_imp_div_less)
  moreover have "k mod H < H" using H by simp
  ultimately show ?thesis
    unfolding q r slot_def using assms(1-4) by (rule SetCell_in_range[rotated 4])
qed

lemma length_place: "length (place W H a cs xs) = length xs"
  by (induction cs arbitrary: a xs) simp_all

lemma place_nth:
  assumes "a + length cs \<le> W * H" "length xs = W * H" "p < W * H"
  shows "place W H a cs xs ! p =
    (if a \<le> record_of W H p \<and> record_of W H p < a + length cs
     then cs ! (record_of W H p - a) else xs ! p)"
  using assms
proof (induction cs arbitrary: a xs)
  case Nil
  then show ?case by auto
next
  case (Cons c cs)
  let ?r = "record_of W H p"
  have a: "a < W * H" using Cons.prems by simp
  have sl: "slot W H a < length xs" using a Cons.prems by (simp add: slot_less)
  have eq: "slot W H a = p \<longleftrightarrow> a = ?r"
    using record_of_slot [OF a] slot_record_of [OF Cons.prems(3)] by auto
  have "place W H (Suc a) cs (xs[slot W H a := c]) ! p =
      (if Suc a \<le> ?r \<and> ?r < Suc a + length cs then cs ! (?r - Suc a)
       else xs[slot W H a := c] ! p)"
    using Cons.prems by (intro Cons.IH) simp_all
  moreover have "xs[slot W H a := c] ! p = (if a = ?r then c else xs ! p)"
    using sl eq by (simp add: nth_list_update)
  ultimately show ?case
    by (auto simp: nth_Cons')
qed

lemma place_all:
  assumes "length cs = W * H" "length xs = W * H"
  shows "place W H 0 cs xs = row_major W H cs"
proof (rule nth_equalityI)
  show "length (place W H 0 cs xs) = length (row_major W H cs)"
    using assms by (simp add: length_place row_major_def)
next
  fix p assume "p < length (place W H 0 cs xs)"
  then have p: "p < W * H" using assms by (simp add: length_place)
  then have "record_of W H p < length cs" using assms by (simp add: record_of_less)
  then show "place W H 0 cs xs ! p = row_major W H cs ! p"
    using p assms by (simp add: place_nth row_major_def)
qed

lemma cells_loop_place:
  assumes "Width img = int W" "Height img = int H" "length (Cells img) = W * H"
    and "W * H < 2 ^ 63" "a + length cs \<le> W * H"
  shows "cells_loop fin [a..<a + length cs] (concat (map Write_CellData cs) @ rest) img err
       = Goes_on rest (img\<lparr>Cells := place W H a cs (Cells img)\<rparr>)
           (if cs = [] then err else None)"
  using assms
proof (induction cs arbitrary: a img err)
  case Nil
  then show ?case by simp
next
  case (Cons c cs)
  have a: "a < W * H" using Cons.prems by simp
  then have H: "Height img \<noteq> 0" using Cons.prems(2) by (cases H) auto
  let ?img = "img\<lparr>Cells := (Cells img)[slot W H a := c]\<rparr>"
  have up: "[a..<a + length (c # cs)] = a # [Suc a..<Suc a + length cs]"
    using upt_conv_Cons [of a "a + length (c # cs)"] by (simp del: upt_Suc)
  have set: "SetCell img (quo (int a) (Height img)) (rem (int a) (Height img)) c
      = Returns (?img, None)"
    using Cons.prems(1-4) a by (rule SetCell_record)
  have ih: "cells_loop fin [Suc a..<Suc a + length cs] (concat (map Write_CellData cs) @ rest) ?img None
      = Goes_on rest (?img\<lparr>Cells := place W H (Suc a) cs (Cells ?img)\<rparr>)
          (if cs = [] then None else None)"
    using Cons.prems by (intro Cons.IH) simp_all
  show ?case
    unfolding up using ih
    by (simp add: Read_CellData_Write_CellData H set del: upt_Suc)
qed

section \<open>Packed colours and path suffixes\<close>

lemma mask_255: "(0xFF :: uint32) = mask 8"
  by (simp add: mask_eq_exp_minus_1)

lemma bytes32_byte0: "(ucast (bytes32 b3 b2 b1 b0 AND 0xFF) :: uint8) = b0"
  unfolding bytes32_def mask_255
  by (rule bit_word_eqI) (auto simp: bit_simps dest: bit_imp_le_length)

lemma bytes32_byte1: "(ucast (drop_bit 8 (bytes32 b3 b2 b1 b0) AND 0xFF) :: uint8) = b1"
  unfolding bytes32_def mask_255
  by (rule bit_word_eqI) (auto simp: bit_simps dest: bit_imp_le_length)

lemma bytes32_byte2: "(ucast (drop_bit 16 (bytes32 b3 b2 b1 b0) AND 0xFF) :: uint8) = b2"
  unfolding bytes32_def mask_255
  by (rule bit_word_eqI) (auto simp: bit_simps dest: bit_imp_le_length)

lemma bytes32_byte3: "(ucast (drop_bit 24 (bytes32 b3 b2 b1 b0) AND 0xFF) :: uint8) = b3"
  unfolding bytes32_def mask_255
  by (rule bit_word_eqI) (auto simp: bit_simps dest: bit_imp_le_length)

lemma bytes32_top: "(ucast (drop_bit 24 (bytes32 b3 b2 b1 b0)) :: uint8) = b3"
  unfolding bytes32_def
  by (rule bit_word_eqI) (auto simp: bit_simps dest: bit_imp_le_length)

lemma bytes32_Uint32: "bytes32 b3 b2 b1 b0 = Uint32 [b0, b1, b2, b3]"
  by (simp add: bytes32_def Uint32_def or.commute or.left_commute)

lemma bytes32_split:
  "bytes32 (ucast (drop_bit 24 v)) (ucast (drop_bit 16 v)) (ucast (drop_bit 8 v)) (ucast v) = v"
  using Uint32_PutUint32 [of v "[]"] by (simp add: bytes32_Uint32 PutUint32_def)

lemma HasSuffix_append: "HasSuffix (s @ t) t"
  by (simp add: HasSuffix_def)

section \<open>The shape of an image through \<open>Init\<close>, \<open>SetCell\<close> and \<open>Import\<close>\<close>

lemma SetCell_same_shape: "SetCell img x y c = Returns (img', e) \<Longrightarrow> same_shape img img'"
  by (auto simp: SetCell_def Let_def same_shape_def split: if_splits)

lemma same_shape_refl: "same_shape img img"
  by (simp add: same_shape_def)

lemma same_shape_trans: "same_shape a b \<Longrightarrow> same_shape b c \<Longrightarrow> same_shape a c"
  by (simp add: same_shape_def)

lemma cells_loop_same_shape:
  "cells_loop fin is data img err = Goes_on d img' e \<or> cells_loop fin is data img err = Returned img' e
     \<Longrightarrow> same_shape img img'"
proof (induction "is" arbitrary: data img err)
  case Nil
  then show ?case by (simp add: same_shape_refl)
next
  case (Cons i "is")
  obtain d1 c e1 where r: "Read_CellData fin data CellData_zero = (d1, c, e1)"
    by (cases "Read_CellData fin data CellData_zero") auto
  show ?case
  proof (cases "e1 = None")
    case False
    then show ?thesis using Cons.prems r by (auto simp: same_shape_refl)
  next
    case True
    then have H: "Height img \<noteq> 0" using Cons.prems r by (auto split: if_splits)
    obtain img1 e2 where s: "SetCell img (quo (int i) (Height img)) (rem (int i) (Height img)) c
        = Returns (img1, e2)"
      using Cons.prems r True H
      by (cases "SetCell img (quo (int i) (Height img)) (rem (int i) (Height img)) c") auto
    have "cells_loop fin is d1 img1 e1 = Goes_on d img' e \<or> cells_loop fin is d1 img1 e1 = Returned img' e"
      using Cons.prems r True H s by simp
    then have "same_shape img1 img'" by (rule Cons.IH)
    with SetCell_same_shape [OF s] show ?thesis by (rule same_shape_trans)
  qed
qed

lemma layers_loop_same_shape:
  "layers_loop fin ls data img err = Returns (img', e) \<Longrightarrow> same_shape img img'"
proof (induction ls arbitrary: data img err)
  case Nil
  then show ?case by (simp add: same_shape_refl)
next
  case (Cons layer ls)
  obtain d1 e1 where h: "(if layer \<noteq> 0
            then (case Read_uint32 fin data 0 of
                    (data1, w, err1) \<Rightarrow>
                      (case Read_uint32 fin data1 0 of (data2, h, err2) \<Rightarrow> (data2, err2)))
            else (data, err)) = (d1, e1)"
    by (metis surj_pair)
  show ?case
  proof (cases "cells_loop fin [0..<nat (int64 (Width img * Height img))] d1 img e1")
    case Panicked
    then show ?thesis using Cons.prems h by simp
  next
    case (Returned i2 e2)
    then show ?thesis using Cons.prems h cells_loop_same_shape [of fin _ d1 img e1 _ img' e]
      by auto
  next
    case (Goes_on d2 i2 e2)
    then have "layers_loop fin ls d2 i2 e2 = Returns (img', e)" using Cons.prems h by simp
    then have "same_shape i2 img'" by (rule Cons.IH)
    moreover have "same_shape img i2" using Goes_on cells_loop_same_shape by blast
    ultimately show ?thesis using same_shape_trans by blast
  qed
qed

lemma make_returns_small: "make_returns heap n \<Longrightarrow> 0 \<le> n \<and> n < 2 ^ 63"
  by (simp add: make_returns_def maxAlloc_def)

lemma Init_Returns:
  "Init heap img0 width height = Returns img \<Longrightarrow>
     0 \<le> int64 (width * height) \<and>
     img = img0\<lparr>Width := width, Height := height,
               Cells := replicate (nat (int64 (width * height))) (Clear CellData_zero)\<rparr>"
  by (auto simp: Init_def Let_def make_returns_def split: if_splits)

lemma Init_in_range:
  assumes "make_returns heap (width * height)"
  shows "Init heap img0 width height = Returns (img0\<lparr>Width := width, Height := height,
               Cells := replicate (nat (width * height)) (Clear CellData_zero)\<rparr>)"
proof -
  have "0 \<le> width * height" "width * height < 2 ^ 63"
    using make_returns_small [OF assms] by simp_all
  then have "int64 (width * height) = width * height"
    by (simp add: int64_def)
  then show ?thesis using assms by (simp add: Init_def Let_def)
qed

lemma Import_data_shape:
  assumes "Import_data heap fin data img0 = Returns (img, None)"
  shows "0 \<le> Width img \<and> Width img < 2 ^ 32 \<and> 0 \<le> Height img \<and> Height img < 2 ^ 32
    \<and> int (length (Cells img)) = Width img * Height img \<and> Width img * Height img < 2 ^ 63"
proof -
  obtain d1 version e1 where r1: "Read_uint32 fin data 0 = (d1, version, e1)" by (metis surj_pair)
  obtain d2 numLayers e2 where r2: "Read_uint32 fin d1 0 = (d2, numLayers, e2)" by (metis surj_pair)
  obtain d3 w e3 where r3: "Read_uint32 fin d2 0 = (d3, w, e3)" by (metis surj_pair)
  obtain d4 h e4 where r4: "Read_uint32 fin d3 0 = (d4, h, e4)" by (metis surj_pair)
  have e2: "e2 = None" using assms r1 r2 by (auto simp: Import_data_def split: if_splits)
  have e4: "e4 = None" using assms r1 r2 r3 r4 e2 by (auto simp: Import_data_def split: if_splits)
  obtain img1 where i: "Init heap img0 (uint w) (uint h) = Returns img1"
    and l: "layers_loop fin [0..<unat numLayers] d4 img1 None = Returns (img, None)"
    using assms r1 r2 r3 r4 e2 e4
    by (cases "Init heap img0 (uint w) (uint h)") (auto simp: Import_data_def)
  have w: "0 \<le> uint w" "uint w < 2 ^ 32" and h: "0 \<le> uint h" "uint h < 2 ^ 32"
    using uint_bounded [of w] uint_bounded [of h] by simp_all
  have "uint w * uint h \<le> uint w * 2 ^ 32" using w h by (intro mult_left_mono) simp_all
  also have "\<dots> < 2 ^ 32 * 2 ^ 32" using w by simp
  finally have p64: "uint w * uint h < 2 ^ 64" by simp
  have p0: "0 \<le> uint w * uint h" using w h by simp
  note I = Init_Returns [OF i]
  have p63: "uint w * uint h < 2 ^ 63"
  proof (rule ccontr)
    assume "\<not> uint w * uint h < 2 ^ 63"
    then have "int64 (uint w * uint h) < 0" using p64 by (intro int64_neg) simp_all
    then show False using I by simp
  qed
  then have "int64 (uint w * uint h) = uint w * uint h" using p0 by (simp add: int64_def)
  then have "Width img1 = uint w" "Height img1 = uint h"
    "int (length (Cells img1)) = uint w * uint h"
    using I p0 by simp_all
  moreover have "same_shape img1 img" using l by (rule layers_loop_same_shape)
  ultimately show ?thesis using w h p63 by (simp add: same_shape_def)
qed

section \<open>The claims about cells and single cell access\<close>

text \<open>
  C5, as amended. \<open>SetColoursARGB\<close> reads the opacity of the background from the top byte
  of \<open>back\<close>, \<open>SetColoursRGBA\<close> from the low byte. When that byte is zero the background
  becomes (255, 0, 255) and nothing else in the cell changes: the glyph and the foreground
  stay as they were. Otherwise the three colour bytes of \<open>fore\<close> and of \<open>back\<close> become the
  foreground and the background. Every 32-bit value is made of its four bytes, so this
  covers every \<open>fore\<close> and \<open>back\<close>.
\<close>

theorem SetColours_bytes:
  "SetColoursARGB cd (bytes32 a r g b) (bytes32 a' r' g' b') =
     (if a' = 0 then cd\<lparr>R_b := 255, G_b := 0, B_b := 255\<rparr>
      else cd\<lparr>R_f := r, G_f := g, B_f := b, R_b := r', G_b := g', B_b := b'\<rparr>)
   \<and> SetColoursRGBA cd (bytes32 r g b a) (bytes32 r' g' b' a') =
     (if a' = 0 then cd\<lparr>R_b := 255, G_b := 0, B_b := 255\<rparr>
      else cd\<lparr>R_f := r, G_f := g, B_f := b, R_b := r', G_b := g', B_b := b'\<rparr>)
   \<and> fore = bytes32 (ucast (drop_bit 24 fore)) (ucast (drop_bit 16 fore))
              (ucast (drop_bit 8 fore)) (ucast fore)"
  by (simp add: SetColoursARGB_def SetColoursRGBA_def bytes32_byte0 bytes32_byte1
      bytes32_byte2 bytes32_byte3 bytes32_top bytes32_split)

theorem SetColours_bytes_witness:
  "SetColoursARGB \<lparr>Glyph = 65, R_f = 1, G_f = 2, B_f = 3, R_b = 4, G_b = 5, B_b = 6\<rparr>
      0x80102030 0x01405060
     = \<lparr>Glyph = 65, R_f = 0x10, G_f = 0x20, B_f = 0x30, R_b = 0x40, G_b = 0x50, B_b = 0x60\<rparr>
   \<and> SetColoursRGBA \<lparr>Glyph = 65, R_f = 1, G_f = 2, B_f = 3, R_b = 4, G_b = 5, B_b = 6\<rparr>
      0x10203080 0x40506000
     = \<lparr>Glyph = 65, R_f = 1, G_f = 2, B_f = 3, R_b = 255, G_b = 0, B_b = 255\<rparr>"
  using SetColours_bytes [of "\<lparr>Glyph = 65, R_f = 1, G_f = 2, B_f = 3, R_b = 4, G_b = 5, B_b = 6\<rparr>"
      "0x80" "0x10" "0x20" "0x30" 1 "0x40" "0x50" "0x60"]
    SetColours_bytes [of "\<lparr>Glyph = 65, R_f = 1, G_f = 2, B_f = 3, R_b = 4, G_b = 5, B_b = 6\<rparr>"
      "0x80" "0x10" "0x20" "0x30" 0 "0x40" "0x50" "0x60"]
  by (simp add: bytes32_def)

text \<open>
  Against C5 as stated: a cell with the foreground (1, 2, 3) keeps it when the background
  given to \<open>SetColoursARGB\<close> has the top byte zero, and when the background given to
  \<open>SetColoursRGBA\<close> has the low byte zero; the foreground is not made black.
\<close>

theorem SetColours_foreground_counterexample:
  "SetColoursARGB \<lparr>Glyph = 65, R_f = 1, G_f = 2, B_f = 3, R_b = 4, G_b = 5, B_b = 6\<rparr>
      0xFFFFFFFF 0x00112233
     = \<lparr>Glyph = 65, R_f = 1, G_f = 2, B_f = 3, R_b = 255, G_b = 0, B_b = 255\<rparr>
   \<and> SetColoursRGBA \<lparr>Glyph = 65, R_f = 1, G_f = 2, B_f = 3, R_b = 4, G_b = 5, B_b = 6\<rparr>
      0xFFFFFFFF 0x11223300
     = \<lparr>Glyph = 65, R_f = 1, G_f = 2, B_f = 3, R_b = 255, G_b = 0, B_b = 255\<rparr>"
  by (simp add: SetColoursARGB_def SetColoursRGBA_def)

text \<open>
  On a well-formed image, \<open>GetCell\<close> and \<open>SetCell\<close> return an error when a coordinate is
  negative, \<open>x\<close> is at least \<open>Width\<close>, \<open>y\<close> is at least \<open>Height\<close>, or the image has no
  cells; \<open>GetCell\<close> then returns the zero cell and \<open>SetCell\<close> leaves the image as it was.
  Otherwise \<open>x + y * Width\<close> is an index of \<open>Cells\<close>, \<open>GetCell\<close> returns the cell there and
  \<open>SetCell\<close> replaces that cell and no other. After \<open>Init\<close> with 0 and 0 both fail at every
  coordinate.
\<close>

lemma cell_access_well_formed:
  "(well_formed heap img \<longrightarrow>
      (if x < 0 \<or> x \<ge> Width img \<or> y < 0 \<or> y \<ge> Height img \<or> length (Cells img) = 0
       then GetCell img x y
              = Returns (CellData_zero, Some (if length (Cells img) = 0 then NoData else OutOfBounds))
          \<and> SetCell img x y cell = Returns (img, Some OutOfBounds)
       else nat (x + y * Width img) < length (Cells img)
          \<and> GetCell img x y = Returns (Cells img ! nat (x + y * Width img), None)
          \<and> SetCell img x y cell
              = Returns (img\<lparr>Cells := (Cells img)[nat (x + y * Width img) := cell]\<rparr>, None)))
   \<and> (case Init heap img0 0 0 of
         Panics \<Rightarrow> False
       | Returns blank \<Rightarrow>
           GetCell blank x y = Returns (CellData_zero, Some NoData)
         \<and> SetCell blank x y cell = Returns (blank, Some OutOfBounds))"
proof (intro conjI impI)
  assume wf: "well_formed heap img"
  obtain W H where W: "Width img = int W" and H: "Height img = int H"
    using wf by (metis well_formed_def nonneg_int_cases)
  have len: "length (Cells img) = W * H"
    using wf W H by (simp add: well_formed_def flip: of_nat_mult)
  have "make_returns heap (int (length (Cells img)))" using wf unfolding well_formed_def by blast
  then have "make_returns heap (int (W * H))" unfolding len .
  then have "int (W * H) < 2 ^ 63" using make_returns_small by blast
  then have "int (W * H) < int (2 ^ 63)" by simp
  then have small: "W * H < 2 ^ 63" by (simp only: of_nat_less_iff)
  show "if x < 0 \<or> x \<ge> Width img \<or> y < 0 \<or> y \<ge> Height img \<or> length (Cells img) = 0
       then GetCell img x y
              = Returns (CellData_zero, Some (if length (Cells img) = 0 then NoData else OutOfBounds))
          \<and> SetCell img x y cell = Returns (img, Some OutOfBounds)
       else nat (x + y * Width img) < length (Cells img)
          \<and> GetCell img x y = Returns (Cells img ! nat (x + y * Width img), None)
          \<and> SetCell img x y cell
              = Returns (img\<lparr>Cells := (Cells img)[nat (x + y * Width img) := cell]\<rparr>, None)"
  proof (cases "x < 0 \<or> x \<ge> Width img \<or> y < 0 \<or> y \<ge> Height img \<or> length (Cells img) = 0")
    case True
    have "x < 0 \<or> x \<ge> Width img \<or> y < 0 \<or> y \<ge> Height img"
    proof (cases "length (Cells img) = 0")
      case True
      then have "W = 0 \<or> H = 0" using len by simp
      then show ?thesis using W H by auto
    next
      case False
      then show ?thesis using True by simp
    qed
    then show ?thesis using True by (auto simp: GetCell_def SetCell_def)
  next
    case False
    then have x: "int (nat x) = x" "nat x < W" and y: "int (nat y) = y" "nat y < H"
      using W H by auto
    have i: "nat (x + y * Width img) = nat x + nat y * W"
      using x(1) y(1) W by (metis nat_int of_nat_add of_nat_mult)
    have lt: "nat (x + y * Width img) < length (Cells img)"
      unfolding i len using x(2) y(2) small by (rule index_in_range(2))
    have "GetCell img (int (nat x)) (int (nat y)) = Returns (Cells img ! (nat x + nat y * W), None)"
      using W H len small x(2) y(2) by (rule GetCell_in_range)
    then have g: "GetCell img x y = Returns (Cells img ! nat (x + y * Width img), None)"
      unfolding x(1) y(1) i .
    have "SetCell img (int (nat x)) (int (nat y)) cell
        = Returns (img\<lparr>Cells := (Cells img)[nat x + nat y * W := cell]\<rparr>, None)"
      using W H len small x(2) y(2) by (rule SetCell_in_range)
    then have s: "SetCell img x y cell
        = Returns (img\<lparr>Cells := (Cells img)[nat (x + y * Width img) := cell]\<rparr>, None)"
      unfolding x(1) y(1) i .
    show ?thesis using False lt g s by simp
  qed
next
  show "case Init heap img0 0 0 of
         Panics \<Rightarrow> False
       | Returns blank \<Rightarrow>
           GetCell blank x y = Returns (CellData_zero, Some NoData)
         \<and> SetCell blank x y cell = Returns (blank, Some OutOfBounds)"
    by (auto simp: Init_def int64_def make_returns_def maxAlloc_def GetCell_def SetCell_def)
qed

text \<open>
  C6. Against the claim that \<open>SetCell\<close> returns an error on an image with no cells, as
  \<open>GetCell\<close> does: on the image of width 1 and height 1 with no cells, \<open>GetCell\<close> at (0, 0)
  returns the error of an image with no data; \<open>SetCell\<close>, which does not look at the
  number of cells, passes its bounds test and panics on the index. The same happens on the
  image that \<open>Init\<close> returns for the width \<open>2^32\<close> and the height \<open>2^32\<close>, whose product as
  an \<open>int\<close> is 0.
\<close>

theorem SetCell_no_cells:
  "GetCell \<lparr>Width = 1, Height = 1, Cells = []\<rparr> 0 0 = Returns (CellData_zero, Some NoData)
   \<and> SetCell \<lparr>Width = 1, Height = 1, Cells = []\<rparr> 0 0 (glyph_cell 88) = Panics
   \<and> Init 1000 ImageData_zero 4294967296 4294967296
     = Returns \<lparr>Width = 4294967296, Height = 4294967296, Cells = []\<rparr>
   \<and> GetCell \<lparr>Width = 4294967296, Height = 4294967296, Cells = []\<rparr> 0 0
     = Returns (CellData_zero, Some NoData)
   \<and> SetCell \<lparr>Width = 4294967296, Height = 4294967296, Cells = []\<rparr> 0 0 (glyph_cell 88)
     = Panics"
  by (simp add: GetCell_def SetCell_def Init_def int64_def make_returns_def maxAlloc_def
      ImageData_zero_def)

text \<open>
  C7, as amended. After \<open>Clear\<close> a cell has the glyph 0, the foreground (0, 0, 0) and the
  background (255, 0, 255), \<open>Undrawn\<close> holds of it, and the background that \<open>RGBA\<close> returns
  is 0xFF00FFFF: red 255, green 0, blue 255 and alpha 255, a byte each from the top.
\<close>

theorem Clear_undrawn:
  "Clear cd = \<lparr>Glyph = 0, R_f = 0, G_f = 0, B_f = 0, R_b = 255, G_b = 0, B_b = 255\<rparr>
   \<and> Undrawn (Clear cd) \<and> snd (RGBA (Clear cd)) = 0xFF00FFFF"
  by (simp add: Clear_def Undrawn_def RGBA_def)

text \<open>
  Against C7 as stated: the background that \<open>RGBA\<close> returns for a cleared cell is not
  0xFF0000FF, whose blue byte is zero.
\<close>

theorem Clear_RGBA_counterexample:
  "snd (RGBA (Clear (glyph_cell 88))) = 0xFF00FFFF
   \<and> snd (RGBA (Clear (glyph_cell 88))) \<noteq> 0xFF0000FF"
  by (simp add: Clear_def RGBA_def glyph_cell_def)

text \<open>
  C8. The buffer that \<open>Export\<close> hands to the gzip writer for the image of one cell with the
  glyph 88, the foreground (255, 255, 255) and the background (0, 0, 0): the version -1, the
  layer count 1, the width 1 and the height 1 as four little-endian bytes each, then the
  ten bytes of the cell, and nothing more.
\<close>

theorem Export_one_cell:
  "Export_imagebuffer
     \<lparr>Width = 1, Height = 1,
      Cells = [\<lparr>Glyph = 88, R_f = 255, G_f = 255, B_f = 255, R_b = 0, G_b = 0, B_b = 0\<rparr>]\<rparr>
   = Returns [255, 255, 255, 255,  1, 0, 0, 0,  1, 0, 0, 0,  1, 0, 0, 0,
              88, 0, 0, 0,  255, 255, 255,  0, 0, 0]"
  by code_simp

text \<open>
  C10. On a path that does not end in \<open>.xp\<close>, \<open>Export\<close> does what it does on the path with
  \<open>.xp\<close> appended: it fails only when that file cannot be created, and otherwise writes
  the image there. \<open>Import\<close> on such a path returns the error of a file that is not an XP
  image, whatever the files are.
\<close>

theorem extension_check:
  "\<not> HasSuffix path ''.xp'' \<Longrightarrow>
     Export img path fs = Export img (path @ ''.xp'') fs
   \<and> Export img path fs =
      (if \<not> creatable fs (path @ ''.xp'') then Returns (fs, Some CreateFailed)
       else (case Export_imagebuffer img of
               Panics \<Rightarrow> Panics
             | Returns bytes \<Rightarrow>
                 Returns (fs\<lparr>files := (files fs)(path @ ''.xp'' \<mapsto> Gzip bytes EOF)\<rparr>, None)))
   \<and> Import heap path fs = Returns (ImageData_zero, Some NotXP)"
  using HasSuffix_append [of path "''.xp''"]
  by (simp add: Export_def Import_def Let_def)

theorem extension_check_witness:
  "\<not> HasSuffix ''a.XP'' ''.xp''
   \<and> Export ImageData_zero ''a.XP''
        \<lparr>files = (\<lambda>p. Some (Gzip [] EOF)), creatable = (\<lambda>p. True)\<rparr>
     = Returns (\<lparr>files = (\<lambda>p. Some (Gzip [] EOF))(''a.XP.xp'' \<mapsto>
                    Gzip [255, 255, 255, 255, 1, 0, 0, 0, 0, 0, 0, 0, 0, 0, 0, 0] EOF),
                 creatable = (\<lambda>p. True)\<rparr>, None)
   \<and> Import 1000 ''a.XP'' \<lparr>files = (\<lambda>p. Some (Gzip [] EOF)), creatable = (\<lambda>p. True)\<rparr>
     = Returns (ImageData_zero, Some NotXP)"
proof -
  have s: "\<not> HasSuffix ''a.XP'' ''.xp''"
    by (simp add: HasSuffix_def)
  have b: "Export_imagebuffer ImageData_zero
      = Returns [255, 255, 255, 255, 1, 0, 0, 0, 0, 0, 0, 0, 0, 0, 0, 0]"
    by code_simp
  show ?thesis
    using s b extension_check [OF s, of ImageData_zero
        "\<lparr>files = (\<lambda>p. Some (Gzip [] EOF)), creatable = (\<lambda>p. True)\<rparr>" 1000,
        THEN conjunct2]
    by simp
qed

text \<open>
  C9, as amended. With a width and a height that are not negative and a product below
  \<open>2^63\<close>, an image that \<open>Init\<close> returns has the width and height given and as many cells
  as their product, all of them cleared, undrawn cells; and \<open>Init\<close> returns when \<open>make\<close>
  gives a slice of that many cells. An image that \<open>Import\<close> returns with no error has as
  many cells as the product of its dimensions. \<open>SetCell\<close> changes neither the dimensions
  nor the number of cells.
\<close>

theorem invariant_holds:
  "(0 \<le> width \<and> 0 \<le> height \<and> width * height < 2 ^ 63
      \<and> Init heap img0 width height = Returns img1 \<longrightarrow>
      invariant img1 \<and> Width img1 = width \<and> Height img1 = height
        \<and> (\<forall>c \<in> set (Cells img1). c = Clear CellData_zero \<and> Undrawn c))
   \<and> (0 \<le> width \<and> 0 \<le> height \<and> make_returns heap (width * height) \<longrightarrow>
        Init heap img0 width height
          = Returns \<lparr>Width = width, Height = height,
                     Cells = replicate (nat (width * height)) (Clear CellData_zero)\<rparr>)
   \<and> (Import heap path fs = Returns (img2, None) \<longrightarrow> invariant img2)
   \<and> (SetCell img3 x y cell = Returns (img4, err) \<longrightarrow>
        Width img4 = Width img3 \<and> Height img4 = Height img3
      \<and> length (Cells img4) = length (Cells img3) \<and> (invariant img3 \<longrightarrow> invariant img4))"
proof (intro conjI impI)
  assume a: "0 \<le> width \<and> 0 \<le> height \<and> width * height < 2 ^ 63
      \<and> Init heap img0 width height = Returns img1"
  then have i: "Init heap img0 width height = Returns img1" by simp
  note I = Init_Returns [OF i]
  have "0 \<le> width * height" using a by simp
  then have n: "int64 (width * height) = width * height"
    using a by (simp add: int64_def)
  show "invariant img1" "Width img1 = width" "Height img1 = height"
    "\<forall>c \<in> set (Cells img1). c = Clear CellData_zero \<and> Undrawn c"
    using I unfolding n by (simp_all add: invariant_def Undrawn_def Clear_def)
next
  assume "0 \<le> width \<and> 0 \<le> height \<and> make_returns heap (width * height)"
  then show "Init heap img0 width height
          = Returns \<lparr>Width = width, Height = height,
                     Cells = replicate (nat (width * height)) (Clear CellData_zero)\<rparr>"
    by (simp add: Init_in_range)
next
  assume "Import heap path fs = Returns (img2, None)"
  then obtain data fin where "Import_data heap fin data ImageData_zero = Returns (img2, None)"
    by (auto simp: Import_def Let_def split: if_splits option.splits disk_file.splits)
  then have "0 \<le> Width img2 \<and> Width img2 < 2 ^ 32 \<and> 0 \<le> Height img2 \<and> Height img2 < 2 ^ 32
    \<and> int (length (Cells img2)) = Width img2 * Height img2 \<and> Width img2 * Height img2 < 2 ^ 63"
    by (rule Import_data_shape)
  then show "invariant img2" by (simp add: invariant_def)
next
  assume "SetCell img3 x y cell = Returns (img4, err)"
  then have "same_shape img3 img4" by (rule SetCell_same_shape)
  then show "Width img4 = Width img3" "Height img4 = Height img3"
    "length (Cells img4) = length (Cells img3)" "invariant img3 \<Longrightarrow> invariant img4"
    by (simp_all add: invariant_def same_shape_def)
qed

theorem invariant_holds_witness:
  "Init 1000 ImageData_zero 2 3
     = Returns \<lparr>Width = 2, Height = 3, Cells = replicate 6 (Clear CellData_zero)\<rparr>
   \<and> invariant \<lparr>Width = 2, Height = 3, Cells = replicate 6 (Clear CellData_zero)\<rparr>
   \<and> Import 1000 ''one.xp''
        \<lparr>files = (\<lambda>p. Some (Gzip ([255, 255, 255, 255, 1, 0, 0, 0, 1, 0, 0, 0, 1, 0, 0, 0]
                                    @ Write_CellData (glyph_cell 88)) EOF)),
         creatable = (\<lambda>p. True)\<rparr>
     = Returns (\<lparr>Width = 1, Height = 1, Cells = [glyph_cell 88]\<rparr>, None)
   \<and> invariant \<lparr>Width = 1, Height = 1, Cells = [glyph_cell 88]\<rparr>
   \<and> SetCell \<lparr>Width = 1, Height = 1, Cells = [glyph_cell 88]\<rparr> 0 0 (glyph_cell 89)
     = Returns (\<lparr>Width = 1, Height = 1, Cells = [glyph_cell 89]\<rparr>, None)
   \<and> invariant \<lparr>Width = 1, Height = 1, Cells = [glyph_cell 89]\<rparr>"
proof -
  let ?fs = "\<lparr>files = (\<lambda>p. Some (Gzip ([255, 255, 255, 255, 1, 0, 0, 0, 1, 0, 0, 0, 1, 0, 0, 0]
                                    @ Write_CellData (glyph_cell 88)) EOF)),
         creatable = (\<lambda>p. True)\<rparr>"
  let ?i1 = "\<lparr>Width = 2, Height = 3, Cells = replicate 6 (Clear CellData_zero)\<rparr>"
  let ?i2 = "\<lparr>Width = 1, Height = 1, Cells = [glyph_cell 88]\<rparr>"
  let ?i4 = "\<lparr>Width = 1, Height = 1, Cells = [glyph_cell 89]\<rparr>"
  note h = invariant_holds [of 2 3 1000 ImageData_zero ?i1 "''one.xp''" ?fs ?i2 ?i2 0 0
      "glyph_cell 89" ?i4 None]
  have m: "make_returns 1000 (2 * 3)"
    by (simp add: make_returns_def maxAlloc_def)
  have a: "Init 1000 ImageData_zero 2 3 = Returns ?i1"
    using h [THEN conjunct2, THEN conjunct1] m by (simp add: ImageData_zero_def)
  have a': "invariant ?i1"
    using h [THEN conjunct1] a by simp
  have "Import_data 1000 EOF ([255, 255, 255, 255, 1, 0, 0, 0, 1, 0, 0, 0, 1, 0, 0, 0]
                                    @ Write_CellData (glyph_cell 88)) ImageData_zero
     = Returns (?i2, None)"
    by code_simp
  then have b: "Import 1000 ''one.xp'' ?fs = Returns (?i2, None)"
    by (simp add: Import_def HasSuffix_def)
  have b': "invariant ?i2"
    using h [THEN conjunct2, THEN conjunct2, THEN conjunct1] b by simp
  have c: "SetCell ?i2 0 0 (glyph_cell 89) = Returns (?i4, None)"
    by (simp add: SetCell_def int64_def)
  have c': "invariant ?i4"
    using h [THEN conjunct2, THEN conjunct2, THEN conjunct2] b' c by simp
  show ?thesis
    using a a' b b' c c' by simp
qed

text \<open>
  Against C9 as stated: for the width \<open>2^32\<close> and the height \<open>2^32\<close> the product as an
  \<open>int\<close> is 0, \<open>make\<close> gives the slice of no cells, and \<open>Init\<close> returns an image of that
  width and height with no cells, which are not as many as the product.
\<close>

theorem Init_overflow_counterexample:
  "Init 1000 ImageData_zero 4294967296 4294967296
     = Returns \<lparr>Width = 4294967296, Height = 4294967296, Cells = []\<rparr>
   \<and> \<not> invariant \<lparr>Width = 4294967296, Height = 4294967296, Cells = []\<rparr>"
  by (simp add: Init_def int64_def make_returns_def maxAlloc_def ImageData_zero_def
      invariant_def)

section \<open>The buffer of \<open>Export\<close>\<close>

lemma y_loop_cells:
  assumes "Width img = int W" "Height img = int H" "length (Cells img) = W * H"
    and "W * H < 2 ^ 63" "x < W" "\<forall>y \<in> set ys. y < H"
  shows "y_loop img (int x) ys buf
       = Returns (buf @ concat (map (\<lambda>y. Write_CellData (Cells img ! (x + y * W))) ys))"
  using assms(6)
proof (induction ys arbitrary: buf)
  case Nil
  then show ?case by simp
next
  case (Cons y ys)
  have y: "y < H" using Cons.prems by simp
  have "GetCell img (int x) (int y) = Returns (Cells img ! (x + y * W), None)"
    using assms(1-5) y by (rule GetCell_in_range)
  then show ?case using Cons by simp
qed

lemma x_loop_cells:
  assumes "Width img = int W" "Height img = int H" "length (Cells img) = W * H"
    and "W * H < 2 ^ 63" "\<forall>x \<in> set xs. x < W"
  shows "x_loop img xs buf
       = Returns (buf @ concat (map (\<lambda>x. concat (map (\<lambda>y. Write_CellData (Cells img ! (x + y * W)))
                                                [0..<H])) xs))"
  using assms(5)
proof (induction xs arbitrary: buf)
  case Nil
  then show ?case by simp
next
  case (Cons x xs)
  have x: "x < W" using Cons.prems by simp
  have ys: "\<forall>y \<in> set [0..<H]. y < H" by simp
  have "y_loop img (int x) [0..<H] buf
      = Returns (buf @ concat (map (\<lambda>y. Write_CellData (Cells img ! (x + y * W))) [0..<H]))"
    using assms(1-4) x ys by (rule y_loop_cells)
  then show ?case using Cons assms(2) by simp
qed

lemma upt_block: "[W * H..<W * H + H] = map (\<lambda>y. y + W * H) [0..<H]"
  using map_add_upt [of "W * H" H] by (simp add: add.commute)

lemma grid_by_record:
  "concat (map (\<lambda>x. map (\<lambda>y. g x y) [0..<H]) [0..<W])
     = map (\<lambda>k. g (k div H) (k mod H)) [0..<W * H]"
proof (induction W)
  case 0
  then show ?case by simp
next
  case (Suc W)
  have s: "[0..<Suc W * H] = [0..<W * H] @ [W * H..<W * H + H]"
    using upt_add_eq_append [of 0 "W * H" H] by (simp add: add.commute)
  have "map (\<lambda>k. g (k div H) (k mod H)) [W * H..<W * H + H]
        = map (\<lambda>y. g ((y + W * H) div H) ((y + W * H) mod H)) [0..<H]"
    unfolding upt_block by (simp add: comp_def)
  also have "\<dots> = map (\<lambda>y. g W y) [0..<H]"
    by (rule map_cong) simp_all
  finally have b: "map (\<lambda>k. g (k div H) (k mod H)) [W * H..<W * H + H] = map (\<lambda>y. g W y) [0..<H]" .
  show ?case
    unfolding s using Suc b by simp
qed

lemma concat_cells:
  "concat (map (\<lambda>x. concat (map (\<lambda>y. F (g x y)) ys)) xs)
     = concat (map F (concat (map (\<lambda>x. map (\<lambda>y. g x y) ys) xs)))"
  by (induction xs) (simp_all add: comp_def)

lemma Export_imagebuffer_records:
  assumes "Width img = int W" "Height img = int H" "length (Cells img) = W * H"
    and "W * H < 2 ^ 63"
  shows "Export_imagebuffer img
       = Returns (PutUint32 (- 1) @ PutUint32 1 @ PutUint32 (word_of_int (Width img))
           @ PutUint32 (word_of_int (Height img))
           @ concat (map Write_CellData (map (\<lambda>k. Cells img ! slot W H k) [0..<W * H])))"
proof -
  have "concat (map (\<lambda>x. map (\<lambda>y. Cells img ! (x + y * W)) [0..<H]) [0..<W])
      = map (\<lambda>k. Cells img ! slot W H k) [0..<W * H]"
    unfolding slot_def by (rule grid_by_record)
  then have a: "concat (map (\<lambda>x. concat (map (\<lambda>y. Write_CellData (Cells img ! (x + y * W))) [0..<H])) [0..<W])
      = concat (map Write_CellData (map (\<lambda>k. Cells img ! slot W H k) [0..<W * H]))"
    using concat_cells [of Write_CellData "\<lambda>x y. Cells img ! (x + y * W)" "[0..<H]" "[0..<W]"]
    by (simp only:)
  have xs: "\<forall>x \<in> set [0..<W]. x < W" by simp
  have b: "x_loop img [0..<W]
       (PutUint32 (- 1) @ PutUint32 1 @ PutUint32 (word_of_int (Width img))
          @ PutUint32 (word_of_int (Height img)))
     = Returns ((PutUint32 (- 1) @ PutUint32 1 @ PutUint32 (word_of_int (Width img))
          @ PutUint32 (word_of_int (Height img)))
          @ concat (map (\<lambda>x. concat (map (\<lambda>y. Write_CellData (Cells img ! (x + y * W))) [0..<H])) [0..<W]))"
    using assms xs by (rule x_loop_cells)
  have "nat (Width img) = W" using assms(1) by simp
  then show ?thesis
    unfolding Export_imagebuffer_def Write_uint32_def using a b by (simp only: append_assoc)
qed

section \<open>The layers of \<open>Import\<close>\<close>

lemma cells_loop_layer:
  assumes "Width img = int W" "Height img = int H" "length (Cells img) = W * H"
    and "W * H < 2 ^ 63" "length cs = W * H"
  shows "cells_loop fin [0..<nat (int64 (Width img * Height img))]
           (concat (map Write_CellData cs) @ rest) img None
       = Goes_on rest (img\<lparr>Cells := row_major W H cs\<rparr>) None"
proof -
  have "int (W * H) < int (2 ^ 63)" using assms(4) by (simp only: of_nat_less_iff)
  then have "int W * int H < 2 ^ 63" by simp
  moreover have "0 \<le> int W * int H" by simp
  ultimately have "int64 (int W * int H) = int (W * H)"
    by (simp add: int64_def)
  moreover have "nat (int (W * H)) = W * H" by (rule nat_int)
  ultimately have n: "nat (int64 (Width img * Height img)) = 0 + length cs"
    unfolding assms(1,2,5) by (simp only: add_0)
  have "cells_loop fin [0..<0 + length cs] (concat (map Write_CellData cs) @ rest) img None
       = Goes_on rest (img\<lparr>Cells := place W H 0 cs (Cells img)\<rparr>) (if cs = [] then None else None)"
    using assms(1-4) by (rule cells_loop_place) (simp add: assms(5))
  then show ?thesis
    unfolding n using place_all [OF assms(5,3)] by simp
qed

lemma layers_loop_later:
  assumes "Width img = int W" "Height img = int H" "length (Cells img) = W * H"
    and "W * H < 2 ^ 63"
    and "\<forall>l \<in> set ls. l \<noteq> 0" "length ls = length layers"
    and "\<forall>l \<in> set layers. length (snd (snd l)) = W * H"
  shows "layers_loop fin ls (concat (map layer_bytes layers) @ rest) img err
       = Returns (if layers = [] then (img, err)
                  else (img\<lparr>Cells := row_major W H (snd (snd (last layers)))\<rparr>, None))"
  using assms
proof (induction layers arbitrary: ls img err)
  case Nil
  then show ?case by simp
next
  case (Cons layer layers)
  obtain l ls' where ls: "ls = l # ls'" using Cons.prems(6) by (cases ls) auto
  obtain w h cs where layer: "layer = (w, h, cs)" by (cases layer) auto
  have l: "l \<noteq> 0" using Cons.prems(5) ls by simp
  have cs: "length cs = W * H" using Cons.prems(7) layer by simp
  let ?img = "img\<lparr>Cells := row_major W H cs\<rparr>"
  let ?tail = "concat (map layer_bytes layers) @ rest"
  have bytes: "concat (map layer_bytes (layer # layers)) @ rest
      = PutUint32 w @ PutUint32 h @ concat (map Write_CellData cs) @ ?tail"
    by (simp add: layer layer_bytes_def)
  have c: "cells_loop fin [0..<nat (int64 (Width img * Height img))]
           (concat (map Write_CellData cs) @ ?tail) img None
       = Goes_on ?tail ?img None"
    using Cons.prems(1-4) cs by (rule cells_loop_layer)
  have "layers_loop fin ls' ?tail ?img None
       = Returns (if layers = [] then (?img, None)
                  else (?img\<lparr>Cells := row_major W H (snd (snd (last layers)))\<rparr>, None))"
    using Cons.prems ls by (intro Cons.IH) (simp_all add: row_major_def)
  then show ?case
    unfolding ls bytes using l c
    by (simp add: Read_uint32_PutUint32 layer)
qed

lemma layers_loop_all:
  assumes "Width img = int W" "Height img = int H" "length (Cells img) = W * H"
    and "W * H < 2 ^ 63" "length cs = W * H"
    and "\<forall>l \<in> set later. length (snd (snd l)) = W * H"
  shows "layers_loop fin [0..<Suc (length later)]
           (concat (map Write_CellData cs) @ concat (map layer_bytes later) @ rest) img None
       = Returns (img\<lparr>Cells := row_major W H (snd (snd (last ((w, h, cs) # later))))\<rparr>, None)"
proof -
  let ?img = "img\<lparr>Cells := row_major W H cs\<rparr>"
  let ?tail = "concat (map layer_bytes later) @ rest"
  have up: "[0..<Suc (length later)] = 0 # [1..<Suc (length later)]"
    by (simp add: upt_conv_Cons del: upt_Suc)
  have c: "cells_loop fin [0..<nat (int64 (Width img * Height img))]
           (concat (map Write_CellData cs) @ ?tail) img None
       = Goes_on ?tail ?img None"
    using assms(1-5) by (rule cells_loop_layer)
  have nz: "\<forall>l \<in> set [1..<Suc (length later)]. l \<noteq> 0"
    by (auto simp del: upt_Suc)
  have len: "length [1..<Suc (length later)] = length later"
    by (simp del: upt_Suc)
  have "layers_loop fin [1..<Suc (length later)] ?tail ?img None
       = Returns (if later = [] then (?img, None)
                  else (?img\<lparr>Cells := row_major W H (snd (snd (last later)))\<rparr>, None))"
    using _ _ _ assms(4) nz len assms(6)
    by (rule layers_loop_later) (simp_all add: assms(1,2) row_major_def)
  then show ?thesis
    unfolding up using c by simp
qed

lemma make_returns_unat:
  assumes "make_returns heap (uint w * uint h)"
  shows "unat w * unat h < 2 ^ 63"
proof -
  have p: "uint w * uint h = int (unat w * unat h)"
    unfolding uint_nat by (rule of_nat_mult [symmetric])
  have "uint w * uint h < 2 ^ 63"
    using assms make_returns_small by blast
  then have "int (unat w * unat h) < int (2 ^ 63)" unfolding p by simp
  then show ?thesis by (simp only: of_nat_less_iff)
qed

lemma Import_data_layers:
  assumes "length cs = unat w * unat h" "make_returns heap (uint w * uint h)"
    and "\<forall>l \<in> set later. length (snd (snd l)) = unat w * unat h"
    and "Suc (length later) < 2 ^ 32"
  shows "Import_data heap fin (xp_bytes version ((w, h, cs) # later) @ rest) img0
       = Returns (img0\<lparr>Width := uint w, Height := uint h,
                       Cells := row_major (unat w) (unat h)
                                  (snd (snd (last ((w, h, cs) # later))))\<rparr>, None)"
proof -
  let ?n = "word_of_nat (length ((w, h, cs) # later)) :: uint32"
  let ?body = "concat (map Write_CellData cs) @ concat (map layer_bytes later) @ rest"
  let ?img = "img0\<lparr>Width := uint w, Height := uint h,
      Cells := replicate (nat (uint w * uint h)) (Clear CellData_zero)\<rparr>"
  have bytes: "xp_bytes version ((w, h, cs) # later) @ rest
      = PutUint32 version @ PutUint32 ?n @ PutUint32 w @ PutUint32 h @ ?body"
    unfolding xp_bytes_def layer_bytes_def
    by (simp only: list.map concat.simps append_assoc prod.case)
  have "Suc (length later) < 2 ^ LENGTH(32)" using assms(4) by simp
  then have "unat (word_of_nat (Suc (length later)) :: uint32) = Suc (length later)"
    by (rule of_nat_inverse [OF refl])
  then have n: "unat ?n = Suc (length later)"
    by (simp only: length_Cons)
  have p: "uint w * uint h = int (unat w * unat h)"
    unfolding uint_nat by (rule of_nat_mult [symmetric])
  have "uint w * uint h < 2 ^ 63"
    using assms(2) make_returns_small by blast
  then have "int (unat w * unat h) < int (2 ^ 63)" unfolding p by simp
  then have small: "unat w * unat h < 2 ^ 63" by (simp only: of_nat_less_iff)
  have i: "Init heap img0 (uint w) (uint h) = Returns ?img"
    using assms(2) by (rule Init_in_range)
  have W: "Width ?img = int (unat w)" and H: "Height ?img = int (unat h)"
    unfolding uint_nat by simp_all
  have "nat (uint w * uint h) = unat w * unat h"
    unfolding p by (rule nat_int)
  then have len: "length (Cells ?img) = unat w * unat h"
    by simp
  have l: "layers_loop fin [0..<Suc (length later)] ?body ?img None
      = Returns (?img\<lparr>Cells := row_major (unat w) (unat h)
                                  (snd (snd (last ((w, h, cs) # later))))\<rparr>, None)"
    using W H len small assms(1,3) by (rule layers_loop_all)
  have r: "?img\<lparr>Cells := row_major (unat w) (unat h) (snd (snd (last ((w, h, cs) # later))))\<rparr>
      = img0\<lparr>Width := uint w, Height := uint h,
                       Cells := row_major (unat w) (unat h)
                                  (snd (snd (last ((w, h, cs) # later))))\<rparr>"
    by simp
  show ?thesis
    unfolding bytes Import_data_def
    by (simp only: Read_uint32_PutUint32 prod.case i l n r outcome.case if_False
        simp_thms)
qed

section \<open>Records and coordinates\<close>

lemma length_row_major: "length (row_major W H cs) = W * H"
  by (simp add: row_major_def)

lemma row_major_slot:
  assumes "k < W * H"
  shows "row_major W H cs ! slot W H k = cs ! k"
  using assms slot_less [OF assms] by (simp add: row_major_def record_of_slot)

lemma row_major_records:
  assumes "length xs = W * H"
  shows "row_major W H (map (\<lambda>k. xs ! slot W H k) [0..<W * H]) = xs"
proof (rule nth_equalityI)
  show "length (row_major W H (map (\<lambda>k. xs ! slot W H k) [0..<W * H])) = length xs"
    using assms by (simp add: length_row_major)
next
  fix p assume "p < length (row_major W H (map (\<lambda>k. xs ! slot W H k) [0..<W * H]))"
  then have p: "p < W * H" by (simp add: length_row_major)
  then show "row_major W H (map (\<lambda>k. xs ! slot W H k) [0..<W * H]) ! p = xs ! p"
    using record_of_less [OF p] by (simp add: row_major_def slot_record_of)
qed

lemma record_coordinates:
  assumes "Width img = int W" "Height img = int H" "k < W * H"
  shows "quo (int k) (Height img) = int (k div H)"
    and "rem (int k) (Height img) = int (k mod H)"
    and "nat (quo (int k) (Height img) + rem (int k) (Height img) * Width img) = slot W H k"
proof -
  have H: "0 < H" using assms(3) by (cases H) auto
  show q: "quo (int k) (Height img) = int (k div H)"
    using H assms(2) by (simp add: quo_nonneg zdiv_int)
  show r: "rem (int k) (Height img) = int (k mod H)"
    using H assms(2) by (simp add: rem_nonneg zmod_int)
  show "nat (quo (int k) (Height img) + rem (int k) (Height img) * Width img) = slot W H k"
    unfolding q r assms(1) slot_def by (metis nat_int of_nat_add of_nat_mult)
qed

lemma GetCell_record:
  assumes "Width img = int W" "Height img = int H" "length (Cells img) = W * H"
    and "W * H < 2 ^ 63" "k < W * H"
  shows "GetCell img (quo (int k) (Height img)) (rem (int k) (Height img))
       = Returns (Cells img ! slot W H k, None)"
proof -
  have H: "0 < H" using assms(5) by (cases H) auto
  have "k div H < W" using assms(5) by (simp add: less_mult_imp_div_less)
  moreover have "k mod H < H" using H by simp
  ultimately show ?thesis
    unfolding record_coordinates(1,2) [OF assms(1,2,5)] slot_def
    using assms(1-4) by (rule GetCell_in_range[rotated 4])
qed

lemma well_formed_nat:
  assumes "well_formed heap img"
  obtains W H where "Width img = int W" "Height img = int H" "length (Cells img) = W * H"
    "W * H < 2 ^ 63"
proof -
  obtain W H where W: "Width img = int W" and H: "Height img = int H"
    using assms by (metis well_formed_def nonneg_int_cases)
  have len: "length (Cells img) = W * H"
    using assms W H by (simp add: well_formed_def flip: of_nat_mult)
  have "make_returns heap (int (length (Cells img)))"
    using assms unfolding well_formed_def by blast
  then have "make_returns heap (int (W * H))" unfolding len .
  then have "int (W * H) < 2 ^ 63" using make_returns_small by blast
  then have "int (W * H) < int (2 ^ 63)" by simp
  then have "W * H < 2 ^ 63" by (simp only: of_nat_less_iff)
  then show ?thesis using that W H len by blast
qed

section \<open>The claims about the stored order and the layers\<close>

text \<open>
  C2. From a stream with one layer of width \<open>w\<close> and height \<open>h\<close>, of which \<open>make\<close> gives
  the slice of cells, \<open>Import\<close> returns an image of that width and height in which the
  cell at \<open>x = k / h\<close>, \<open>y = k % h\<close> is record \<open>k\<close> of the stream. The buffer of \<open>Export\<close>
  is the four header fields and then one record for each cell, record \<open>k\<close> being the cell
  at \<open>x = k / Height\<close>, \<open>y = k % Height\<close>, which is the cell \<open>GetCell\<close> returns there.
\<close>

theorem column_major:
  "(length cs = unat w * unat h \<and> make_returns heap (uint w * uint h) \<and> k < length cs \<longrightarrow>
      (case Import_data heap fin (xp_bytes version [(w, h, cs)]) ImageData_zero of
         Panics \<Rightarrow> False
       | Returns (decoded, err) \<Rightarrow>
           err = None \<and> Width decoded = uint w \<and> Height decoded = uint h
         \<and> GetCell decoded (quo (int k) (uint h)) (rem (int k) (uint h))
             = Returns (cs ! k, None)))
   \<and> (well_formed heap img \<longrightarrow>
        Export_imagebuffer img
          = Returns (Write_uint32 (- 1) @ Write_uint32 1 @ Write_uint32 (word_of_int (Width img))
              @ Write_uint32 (word_of_int (Height img))
              @ concat (map (\<lambda>j. Write_CellData
                    (Cells img ! nat (quo (int j) (Height img)
                                        + rem (int j) (Height img) * Width img)))
                  [0..<length (Cells img)]))
      \<and> (\<forall>j < length (Cells img).
            GetCell img (quo (int j) (Height img)) (rem (int j) (Height img))
              = Returns (Cells img ! nat (quo (int j) (Height img)
                                            + rem (int j) (Height img) * Width img), None)))"
proof (intro conjI impI allI)
  assume a: "length cs = unat w * unat h \<and> make_returns heap (uint w * uint h) \<and> k < length cs"
  let ?d = "ImageData_zero\<lparr>Width := uint w, Height := uint h,
      Cells := row_major (unat w) (unat h) (snd (snd (last [(w, h, cs)])))\<rparr>"
  have "Import_data heap fin (xp_bytes version [(w, h, cs)] @ []) ImageData_zero = Returns (?d, None)"
    using a by (intro Import_data_layers) simp_all
  then have i: "Import_data heap fin (xp_bytes version [(w, h, cs)]) ImageData_zero = Returns (?d, None)"
    by simp
  have W: "Width ?d = int (unat w)" and H: "Height ?d = int (unat h)"
    unfolding uint_nat by simp_all
  have len: "length (Cells ?d) = unat w * unat h"
    by (simp add: length_row_major)
  have k: "k < unat w * unat h" using a by simp
  have small: "unat w * unat h < 2 ^ 63" using a make_returns_unat by blast
  have "GetCell ?d (quo (int k) (Height ?d)) (rem (int k) (Height ?d))
      = Returns (Cells ?d ! slot (unat w) (unat h) k, None)"
    using W H len small k by (rule GetCell_record)
  moreover have "Cells ?d ! slot (unat w) (unat h) k = cs ! k"
    using row_major_slot [OF k, of cs] by simp
  ultimately have "GetCell ?d (quo (int k) (uint h)) (rem (int k) (uint h))
      = Returns (cs ! k, None)"
    by simp
  then show "case Import_data heap fin (xp_bytes version [(w, h, cs)]) ImageData_zero of
         Panics \<Rightarrow> False
       | Returns (decoded, err) \<Rightarrow>
           err = None \<and> Width decoded = uint w \<and> Height decoded = uint h
         \<and> GetCell decoded (quo (int k) (uint h)) (rem (int k) (uint h))
             = Returns (cs ! k, None)"
    unfolding i by simp
next
  assume wf: "well_formed heap img"
  obtain W H where s: "Width img = int W" "Height img = int H" "length (Cells img) = W * H"
    "W * H < 2 ^ 63"
    using wf by (rule well_formed_nat)
  have m: "map (\<lambda>j. Write_CellData (Cells img ! slot W H j)) [0..<W * H]
      = map (\<lambda>j. Write_CellData
                (Cells img ! nat (quo (int j) (Height img) + rem (int j) (Height img) * Width img)))
          [0..<W * H]"
    by (rule map_cong) (simp_all add: record_coordinates(3) [OF s(1,2)])
  show "Export_imagebuffer img
          = Returns (Write_uint32 (- 1) @ Write_uint32 1 @ Write_uint32 (word_of_int (Width img))
              @ Write_uint32 (word_of_int (Height img))
              @ concat (map (\<lambda>j. Write_CellData
                    (Cells img ! nat (quo (int j) (Height img)
                                        + rem (int j) (Height img) * Width img)))
                  [0..<length (Cells img)]))"
    unfolding Export_imagebuffer_records [OF s] Write_uint32_def s(3) map_map comp_def m
    by (rule refl)
next
  fix j
  assume wf: "well_formed heap img" and j: "j < length (Cells img)"
  obtain W H where s: "Width img = int W" "Height img = int H" "length (Cells img) = W * H"
    "W * H < 2 ^ 63"
    using wf by (rule well_formed_nat)
  have j': "j < W * H" using j s(3) by simp
  show "GetCell img (quo (int j) (Height img)) (rem (int j) (Height img))
              = Returns (Cells img ! nat (quo (int j) (Height img)
                                            + rem (int j) (Height img) * Width img), None)"
    unfolding record_coordinates(3) [OF s(1,2) j']
    using s j' by (rule GetCell_record)
qed

theorem column_major_witness:
  "Import_data 1000 EOF
     (xp_bytes (- 1) [(2, 3, [glyph_cell 10, glyph_cell 11, glyph_cell 12,
                               glyph_cell 13, glyph_cell 14, glyph_cell 15])])
     ImageData_zero
     = Returns (\<lparr>Width = 2, Height = 3,
                  Cells = [glyph_cell 10, glyph_cell 13, glyph_cell 11,
                           glyph_cell 14, glyph_cell 12, glyph_cell 15]\<rparr>, None)
   \<and> GetCell \<lparr>Width = 2, Height = 3,
                  Cells = [glyph_cell 10, glyph_cell 13, glyph_cell 11,
                           glyph_cell 14, glyph_cell 12, glyph_cell 15]\<rparr> 0 0
       = Returns (glyph_cell 10, None)
   \<and> GetCell \<lparr>Width = 2, Height = 3,
                  Cells = [glyph_cell 10, glyph_cell 13, glyph_cell 11,
                           glyph_cell 14, glyph_cell 12, glyph_cell 15]\<rparr> 0 1
       = Returns (glyph_cell 11, None)
   \<and> GetCell \<lparr>Width = 2, Height = 3,
                  Cells = [glyph_cell 10, glyph_cell 13, glyph_cell 11,
                           glyph_cell 14, glyph_cell 12, glyph_cell 15]\<rparr> 0 2
       = Returns (glyph_cell 12, None)
   \<and> GetCell \<lparr>Width = 2, Height = 3,
                  Cells = [glyph_cell 10, glyph_cell 13, glyph_cell 11,
                           glyph_cell 14, glyph_cell 12, glyph_cell 15]\<rparr> 1 0
       = Returns (glyph_cell 13, None)
   \<and> GetCell \<lparr>Width = 2, Height = 3,
                  Cells = [glyph_cell 10, glyph_cell 13, glyph_cell 11,
                           glyph_cell 14, glyph_cell 12, glyph_cell 15]\<rparr> 1 1
       = Returns (glyph_cell 14, None)
   \<and> GetCell \<lparr>Width = 2, Height = 3,
                  Cells = [glyph_cell 10, glyph_cell 13, glyph_cell 11,
                           glyph_cell 14, glyph_cell 12, glyph_cell 15]\<rparr> 1 2
       = Returns (glyph_cell 15, None)
   \<and> Export_imagebuffer \<lparr>Width = 2, Height = 3,
                  Cells = [glyph_cell 10, glyph_cell 13, glyph_cell 11,
                           glyph_cell 14, glyph_cell 12, glyph_cell 15]\<rparr>
       = Returns (xp_bytes (- 1) [(2, 3, [glyph_cell 10, glyph_cell 11, glyph_cell 12,
                               glyph_cell 13, glyph_cell 14, glyph_cell 15])])"
proof -
  let ?cs = "[glyph_cell 10, glyph_cell 11, glyph_cell 12,
              glyph_cell 13, glyph_cell 14, glyph_cell 15]"
  let ?d = "\<lparr>Width = 2, Height = 3,
                  Cells = [glyph_cell 10, glyph_cell 13, glyph_cell 11,
                           glyph_cell 14, glyph_cell 12, glyph_cell 15]\<rparr>"
  have i: "Import_data 1000 EOF (xp_bytes (- 1) [(2, 3, ?cs)]) ImageData_zero = Returns (?d, None)"
    by code_simp
  have wf: "well_formed 1000 ?d"
    by (simp add: well_formed_def make_returns_def maxAlloc_def)
  have q: "quo 0 3 = 0" "rem 0 3 = 0" "quo 1 3 = 0" "rem 1 3 = 1" "quo 2 3 = 0" "rem 2 3 = 2"
    "quo 3 3 = 1" "rem 3 3 = 0" "quo 4 3 = 1" "rem 4 3 = 1" "quo 5 3 = 1" "rem 5 3 = 2"
    by (simp_all add: quo_def rem_def)
  have g: "GetCell ?d 0 0 = Returns (glyph_cell 10, None)"
    "GetCell ?d 0 1 = Returns (glyph_cell 11, None)"
    "GetCell ?d 0 2 = Returns (glyph_cell 12, None)"
    "GetCell ?d 1 0 = Returns (glyph_cell 13, None)"
    "GetCell ?d 1 1 = Returns (glyph_cell 14, None)"
    "GetCell ?d 1 2 = Returns (glyph_cell 15, None)"
    using column_major [where cs = ?cs and w = 2 and h = 3 and heap = 1000 and k = 0
          and fin = EOF and version = "- 1" and img = ?d, THEN conjunct1]
      column_major [where cs = ?cs and w = 2 and h = 3 and heap = 1000 and k = 1
          and fin = EOF and version = "- 1" and img = ?d, THEN conjunct1]
      column_major [where cs = ?cs and w = 2 and h = 3 and heap = 1000 and k = 2
          and fin = EOF and version = "- 1" and img = ?d, THEN conjunct1]
      column_major [where cs = ?cs and w = 2 and h = 3 and heap = 1000 and k = 3
          and fin = EOF and version = "- 1" and img = ?d, THEN conjunct1]
      column_major [where cs = ?cs and w = 2 and h = 3 and heap = 1000 and k = 4
          and fin = EOF and version = "- 1" and img = ?d, THEN conjunct1]
      column_major [where cs = ?cs and w = 2 and h = 3 and heap = 1000 and k = 5
          and fin = EOF and version = "- 1" and img = ?d, THEN conjunct1]
    unfolding i by (simp_all add: q make_returns_def maxAlloc_def)
  have "Export_imagebuffer ?d
      = Returns (Write_uint32 (- 1) @ Write_uint32 1 @ Write_uint32 (word_of_int (Width ?d))
              @ Write_uint32 (word_of_int (Height ?d))
              @ concat (map (\<lambda>j. Write_CellData
                    (Cells ?d ! nat (quo (int j) (Height ?d)
                                        + rem (int j) (Height ?d) * Width ?d)))
                  [0..<length (Cells ?d)]))"
    using column_major [where cs = ?cs and w = 2 and h = 3 and heap = 1000 and k = 0
          and fin = EOF and version = "- 1" and img = ?d, THEN conjunct2] wf by blast
  also have "\<dots> = Returns (xp_bytes (- 1) [(2, 3, ?cs)])"
    by code_simp
  finally show ?thesis using i g by simp
qed

text \<open>
  C3. From a stream with several layers, each with as many records as the first layer's
  dimensions give, a number of cells of which \<open>make\<close> gives the slice, \<open>Import\<close> returns what it returns from the stream with the last layer
  alone: an image with the first layer's width and height in which the cell at
  \<open>x = k / h\<close>, \<open>y = k % h\<close> is record \<open>k\<close> of the last layer, whatever that record and
  the records of the layers before are.
\<close>

theorem later_layers_overwrite:
  "length cs = unat w * unat h \<and> (\<forall>l \<in> set later. length (snd (snd l)) = unat w * unat h)
     \<and> make_returns heap (uint w * uint h) \<and> Suc (length later) < 2 ^ 32 \<and> k < unat w * unat h \<longrightarrow>
   Import_data heap fin (xp_bytes version ((w, h, cs) # later)) ImageData_zero
     = Import_data heap fin (xp_bytes version [(w, h, snd (snd (last ((w, h, cs) # later))))]) ImageData_zero
   \<and> (case Import_data heap fin (xp_bytes version ((w, h, cs) # later)) ImageData_zero of
         Panics \<Rightarrow> False
       | Returns (decoded, err) \<Rightarrow>
           err = None \<and> Width decoded = uint w \<and> Height decoded = uint h
         \<and> GetCell decoded (quo (int k) (uint h)) (rem (int k) (uint h))
             = Returns (snd (snd (last ((w, h, cs) # later))) ! k, None))"
proof (intro impI)
  assume a: "length cs = unat w * unat h \<and> (\<forall>l \<in> set later. length (snd (snd l)) = unat w * unat h)
     \<and> make_returns heap (uint w * uint h) \<and> Suc (length later) < 2 ^ 32 \<and> k < unat w * unat h"
  let ?top = "snd (snd (last ((w, h, cs) # later)))"
  let ?d = "ImageData_zero\<lparr>Width := uint w, Height := uint h,
      Cells := row_major (unat w) (unat h) ?top\<rparr>"
  have cs: "length cs = unat w * unat h"
    and later: "\<forall>l \<in> set later. length (snd (snd l)) = unat w * unat h"
    and mk: "make_returns heap (uint w * uint h)" and n: "Suc (length later) < 2 ^ 32"
    and k: "k < unat w * unat h"
    using a by simp_all
  have small: "unat w * unat h < 2 ^ 63" using mk by (rule make_returns_unat)
  have top: "length ?top = unat w * unat h"
    using cs later by (cases "later = []") simp_all
  have "Import_data heap fin (xp_bytes version ((w, h, cs) # later) @ []) ImageData_zero = Returns (?d, None)"
    using cs mk later n by (rule Import_data_layers)
  then have i: "Import_data heap fin (xp_bytes version ((w, h, cs) # later)) ImageData_zero
      = Returns (?d, None)"
    by simp
  have "Import_data heap fin (xp_bytes version [(w, h, ?top)] @ []) ImageData_zero
      = Returns (ImageData_zero\<lparr>Width := uint w, Height := uint h,
          Cells := row_major (unat w) (unat h) (snd (snd (last [(w, h, ?top)])))\<rparr>, None)"
    using top mk by (rule Import_data_layers) simp_all
  then have j: "Import_data heap fin (xp_bytes version [(w, h, ?top)]) ImageData_zero = Returns (?d, None)"
    by simp
  have W: "Width ?d = int (unat w)" and H: "Height ?d = int (unat h)"
    unfolding uint_nat by simp_all
  have len: "length (Cells ?d) = unat w * unat h"
    by (simp add: length_row_major)
  have "GetCell ?d (quo (int k) (Height ?d)) (rem (int k) (Height ?d))
      = Returns (Cells ?d ! slot (unat w) (unat h) k, None)"
    using W H len small k by (rule GetCell_record)
  moreover have "Cells ?d ! slot (unat w) (unat h) k = ?top ! k"
    using row_major_slot [OF k, of ?top] by simp
  ultimately have g: "GetCell ?d (quo (int k) (uint h)) (rem (int k) (uint h))
      = Returns (?top ! k, None)"
    by simp
  show "Import_data heap fin (xp_bytes version ((w, h, cs) # later)) ImageData_zero
     = Import_data heap fin (xp_bytes version [(w, h, ?top)]) ImageData_zero
   \<and> (case Import_data heap fin (xp_bytes version ((w, h, cs) # later)) ImageData_zero of
         Panics \<Rightarrow> False
       | Returns (decoded, err) \<Rightarrow>
           err = None \<and> Width decoded = uint w \<and> Height decoded = uint h
         \<and> GetCell decoded (quo (int k) (uint h)) (rem (int k) (uint h))
             = Returns (?top ! k, None))"
    unfolding i j using g by simp
qed

theorem later_layers_overwrite_witness:
  "Import_data 1000 EOF
     (xp_bytes (- 1) [(1, 2, [glyph_cell 65, glyph_cell 66]),
                      (1, 2, [Clear CellData_zero, glyph_cell 67])])
     ImageData_zero
     = Returns (\<lparr>Width = 1, Height = 2, Cells = [Clear CellData_zero, glyph_cell 67]\<rparr>, None)
   \<and> Import_data 1000 EOF (xp_bytes (- 1) [(1, 2, [Clear CellData_zero, glyph_cell 67])]) ImageData_zero
     = Returns (\<lparr>Width = 1, Height = 2, Cells = [Clear CellData_zero, glyph_cell 67]\<rparr>, None)
   \<and> Undrawn (Clear CellData_zero)
   \<and> GetCell \<lparr>Width = 1, Height = 2, Cells = [Clear CellData_zero, glyph_cell 67]\<rparr> 0 0
     = Returns (Clear CellData_zero, None)"
proof -
  let ?d = "\<lparr>Width = 1, Height = 2, Cells = [Clear CellData_zero, glyph_cell 67]\<rparr>"
  have i: "Import_data 1000 EOF (xp_bytes (- 1) [(1, 2, [Clear CellData_zero, glyph_cell 67])]) ImageData_zero
     = Returns (?d, None)"
    by code_simp
  have u: "Undrawn (Clear CellData_zero)"
    by (simp add: Undrawn_def Clear_def)
  have q: "quo 0 2 = 0" "rem 0 2 = 0"
    by (simp_all add: quo_def rem_def)
  have i2: "Import_data 1000 EOF
     (xp_bytes (- 1) [(1, 2, [glyph_cell 65, glyph_cell 66]),
                      (1, 2, [Clear CellData_zero, glyph_cell 67])])
     ImageData_zero = Returns (?d, None)"
    by code_simp
  have "GetCell ?d 0 0 = Returns (Clear CellData_zero, None)"
    using later_layers_overwrite [where cs = "[glyph_cell 65, glyph_cell 66]" and w = 1
        and h = 2 and later = "[(1, 2, [Clear CellData_zero, glyph_cell 67])]" and k = 0
        and heap = 1000 and fin = EOF and version = "- 1"]
    unfolding i2 i by (simp add: q make_returns_def maxAlloc_def)
  then show ?thesis
    using i i2 u by simp
qed

lemma Import_data_Export_imagebuffer:
  assumes "well_formed heap img" "Width img < 2 ^ 32" "Height img < 2 ^ 32"
  shows "\<exists>bytes. Export_imagebuffer img = Returns bytes
           \<and> Import_data heap fin bytes ImageData_zero = Returns (img, None)"
proof -
  obtain W H where s: "Width img = int W" "Height img = int H" "length (Cells img) = W * H"
    "W * H < 2 ^ 63"
    using assms(1) by (rule well_formed_nat)
  have "make_returns heap (int (length (Cells img)))"
    using assms(1) unfolding well_formed_def by blast
  then have mk: "make_returns heap (int W * int H)" unfolding s(3) by simp
  let ?w = "word_of_int (Width img) :: uint32" and ?h = "word_of_int (Height img) :: uint32"
  let ?recs = "map (\<lambda>k. Cells img ! slot W H k) [0..<W * H]"
  have "int W < 2 ^ LENGTH(32)" "int H < 2 ^ LENGTH(32)" using assms(2,3) s(1,2) by simp_all
  then have uu: "uint ?w = int W" "uint ?h = int H"
    unfolding s(1,2) by (simp_all add: word_of_int_inverse)
  then have u: "unat ?w = W" "unat ?h = H" "uint ?w = Width img" "uint ?h = Height img"
    using s(1,2) by (simp_all add: unat_eq_nat_uint)
  have bytes: "Export_imagebuffer img = Returns (xp_bytes (- 1) [(?w, ?h, ?recs)] @ [])"
    unfolding Export_imagebuffer_records [OF s]
    by (simp add: xp_bytes_def layer_bytes_def)
  have "Import_data heap fin (xp_bytes (- 1) [(?w, ?h, ?recs)] @ []) ImageData_zero
      = Returns (ImageData_zero\<lparr>Width := uint ?w, Height := uint ?h,
          Cells := row_major (unat ?w) (unat ?h) (snd (snd (last [(?w, ?h, ?recs)])))\<rparr>, None)"
  proof (rule Import_data_layers)
    show "length ?recs = unat ?w * unat ?h" unfolding u by simp
    show "make_returns heap (uint ?w * uint ?h)" unfolding uu by (rule mk)
  qed simp_all
  moreover have "ImageData_zero\<lparr>Width := uint ?w, Height := uint ?h,
          Cells := row_major (unat ?w) (unat ?h) (snd (snd (last [(?w, ?h, ?recs)])))\<rparr> = img"
    unfolding u using row_major_records [OF s(3)] by (simp add: ImageData_zero_def)
  ultimately show ?thesis using bytes by simp
qed

text \<open>
  C1, as amended. For an image with a width and a height from 0 to \<open>2^32 - 1\<close> and as many
  cells as their product, in a slice that \<open>make\<close> gives, \<open>Import\<close> returns from the buffer of \<open>Export\<close> the image itself,
  with no error; and when the file can be created, \<open>Export\<close> to a path returns no error
  and \<open>Import\<close> from the path it wrote to returns the image.
\<close>

theorem Export_Import_roundtrip:
  "well_formed heap img \<and> Width img < 2 ^ 32 \<and> Height img < 2 ^ 32 \<longrightarrow>
     (case Export_imagebuffer img of
        Panics \<Rightarrow> False
      | Returns bytes \<Rightarrow> Import_data heap fin bytes ImageData_zero = Returns (img, None))
   \<and> (creatable fs (if HasSuffix path ''.xp'' then path else path @ ''.xp'') \<longrightarrow>
        (case Export img path fs of
           Panics \<Rightarrow> False
         | Returns (fs', err) \<Rightarrow>
             err = None
           \<and> Import heap (if HasSuffix path ''.xp'' then path else path @ ''.xp'') fs'
               = Returns (img, None)))"
proof (intro impI conjI)
  assume a: "well_formed heap img \<and> Width img < 2 ^ 32 \<and> Height img < 2 ^ 32"
  then obtain bytes where e: "Export_imagebuffer img = Returns bytes"
    and i: "Import_data heap fin bytes ImageData_zero = Returns (img, None)"
    using Import_data_Export_imagebuffer [of heap img fin] by blast
  obtain bytes' where "Export_imagebuffer img = Returns bytes'"
    and "Import_data heap EOF bytes' ImageData_zero = Returns (img, None)"
    using a Import_data_Export_imagebuffer [of heap img EOF] by blast
  then have i': "Import_data heap EOF bytes ImageData_zero = Returns (img, None)"
    using e by simp
  show "case Export_imagebuffer img of
        Panics \<Rightarrow> False
      | Returns bytes \<Rightarrow> Import_data heap fin bytes ImageData_zero = Returns (img, None)"
    unfolding e using i by simp
  assume c: "creatable fs (if HasSuffix path ''.xp'' then path else path @ ''.xp'')"
  let ?p = "if HasSuffix path ''.xp'' then path else path @ ''.xp''"
  have p: "HasSuffix ?p ''.xp''"
    using HasSuffix_append [of path "''.xp''"] by simp
  have x: "Export img path fs = Returns (fs\<lparr>files := (files fs)(?p \<mapsto> Gzip bytes EOF)\<rparr>, None)"
    using c e by (cases "HasSuffix path ''.xp''") (simp_all add: Export_def Let_def)
  have "Import heap ?p (fs\<lparr>files := (files fs)(?p \<mapsto> Gzip bytes EOF)\<rparr>) = Returns (img, None)"
    using p i' by (simp add: Import_def Let_def)
  then show "case Export img path fs of
           Panics \<Rightarrow> False
         | Returns (fs', err) \<Rightarrow>
             err = None \<and> Import heap ?p fs' = Returns (img, None)"
    unfolding x by simp
qed

theorem Export_Import_roundtrip_witness:
  "Export \<lparr>Width = 2, Height = 2,
            Cells = [glyph_cell 10, glyph_cell 11, glyph_cell 12, glyph_cell 13]\<rparr>
     ''pic'' \<lparr>files = (\<lambda>p. None), creatable = (\<lambda>p. True)\<rparr>
     = Returns (\<lparr>files = (\<lambda>p. None)(''pic.xp'' \<mapsto>
                    Gzip (xp_bytes (- 1) [(2, 2, [glyph_cell 10, glyph_cell 12,
                                                   glyph_cell 11, glyph_cell 13])]) EOF),
                 creatable = (\<lambda>p. True)\<rparr>, None)
   \<and> Import 1000 ''pic.xp''
        \<lparr>files = (\<lambda>p. None)(''pic.xp'' \<mapsto>
                    Gzip (xp_bytes (- 1) [(2, 2, [glyph_cell 10, glyph_cell 12,
                                                   glyph_cell 11, glyph_cell 13])]) EOF),
         creatable = (\<lambda>p. True)\<rparr>
     = Returns (\<lparr>Width = 2, Height = 2,
                  Cells = [glyph_cell 10, glyph_cell 11, glyph_cell 12, glyph_cell 13]\<rparr>, None)"
proof -
  let ?img = "\<lparr>Width = 2, Height = 2,
            Cells = [glyph_cell 10, glyph_cell 11, glyph_cell 12, glyph_cell 13]\<rparr>"
  let ?fs = "\<lparr>files = (\<lambda>p. None), creatable = (\<lambda>p. True)\<rparr>"
  have wf: "well_formed 1000 ?img \<and> Width ?img < 2 ^ 32 \<and> Height ?img < 2 ^ 32"
    by (simp add: well_formed_def make_returns_def maxAlloc_def)
  have s: "\<not> HasSuffix ''pic'' ''.xp''"
    by (simp add: HasSuffix_def)
  have e: "Export_imagebuffer ?img
      = Returns (xp_bytes (- 1) [(2, 2, [glyph_cell 10, glyph_cell 12,
                                          glyph_cell 11, glyph_cell 13])])"
    by code_simp
  have x: "Export ?img ''pic'' ?fs
      = Returns (?fs\<lparr>files := (files ?fs)(''pic.xp'' \<mapsto>
                    Gzip (xp_bytes (- 1) [(2, 2, [glyph_cell 10, glyph_cell 12,
                                                   glyph_cell 11, glyph_cell 13])]) EOF)\<rparr>, None)"
    using s e by (simp add: Export_def)
  have "Import 1000 ''pic.xp'' (?fs\<lparr>files := (files ?fs)(''pic.xp'' \<mapsto>
                    Gzip (xp_bytes (- 1) [(2, 2, [glyph_cell 10, glyph_cell 12,
                                                   glyph_cell 11, glyph_cell 13])]) EOF)\<rparr>)
      = Returns (?img, None)"
    using Export_Import_roundtrip [where heap = 1000 and img = ?img and fin = EOF
        and fs = ?fs and path = "''pic''"] wf s
    unfolding x by simp
  then show ?thesis using x by simp
qed

text \<open>
  Against C1 as stated: the image of width \<open>2^32\<close> and height 0 has no cells, as many as
  the product of its dimensions. \<open>Export\<close> writes its width as the 32-bit value 0, and
  \<open>Import\<close> returns from that stream, and from the file, the image of width 0.
\<close>

theorem Export_Import_width_counterexample:
  "well_formed 1000 \<lparr>Width = 4294967296, Height = 0, Cells = []\<rparr>
   \<and> Export_imagebuffer \<lparr>Width = 4294967296, Height = 0, Cells = []\<rparr>
     = Returns [255, 255, 255, 255, 1, 0, 0, 0, 0, 0, 0, 0, 0, 0, 0, 0]
   \<and> Import_data 1000 EOF [255, 255, 255, 255, 1, 0, 0, 0, 0, 0, 0, 0, 0, 0, 0, 0] ImageData_zero
     = Returns (\<lparr>Width = 0, Height = 0, Cells = []\<rparr>, None)
   \<and> Export \<lparr>Width = 4294967296, Height = 0, Cells = []\<rparr> ''wide.xp''
        \<lparr>files = (\<lambda>p. None), creatable = (\<lambda>p. True)\<rparr>
     = Returns (\<lparr>files = (\<lambda>p. None)(''wide.xp'' \<mapsto>
                    Gzip [255, 255, 255, 255, 1, 0, 0, 0, 0, 0, 0, 0, 0, 0, 0, 0] EOF),
                 creatable = (\<lambda>p. True)\<rparr>, None)
   \<and> Import 1000 ''wide.xp''
        \<lparr>files = (\<lambda>p. None)(''wide.xp'' \<mapsto>
                    Gzip [255, 255, 255, 255, 1, 0, 0, 0, 0, 0, 0, 0, 0, 0, 0, 0] EOF),
         creatable = (\<lambda>p. True)\<rparr>
     = Returns (\<lparr>Width = 0, Height = 0, Cells = []\<rparr>, None)
   \<and> \<lparr>Width = 0, Height = 0, Cells = []\<rparr> \<noteq> \<lparr>Width = 4294967296, Height = 0, Cells = []\<rparr>"
proof -
  let ?img = "\<lparr>Width = 4294967296, Height = 0, Cells = []\<rparr>"
  have wf: "well_formed 1000 ?img"
    by (simp add: well_formed_def make_returns_def maxAlloc_def)
  have "Width ?img = int 4294967296" "Height ?img = int 0" "length (Cells ?img) = 4294967296 * 0"
    "(4294967296 :: nat) * 0 < 2 ^ 63"
    by simp_all
  then have "Export_imagebuffer ?img
       = Returns (PutUint32 (- 1) @ PutUint32 1 @ PutUint32 (word_of_int (Width ?img))
           @ PutUint32 (word_of_int (Height ?img))
           @ concat (map Write_CellData
               (map (\<lambda>k. Cells ?img ! slot 4294967296 0 k) [0..<4294967296 * 0])))"
    by (rule Export_imagebuffer_records)
  moreover have "PutUint32 (- 1) @ PutUint32 1 @ PutUint32 (word_of_int 4294967296)
           @ PutUint32 (word_of_int 0) = [255, 255, 255, 255, 1, 0, 0, 0, 0, 0, 0, 0, 0, 0, 0, 0]"
    by code_simp
  ultimately have e: "Export_imagebuffer ?img
      = Returns [255, 255, 255, 255, 1, 0, 0, 0, 0, 0, 0, 0, 0, 0, 0, 0]"
    by simp
  have i: "Import_data 1000 EOF [255, 255, 255, 255, 1, 0, 0, 0, 0, 0, 0, 0, 0, 0, 0, 0] ImageData_zero
     = Returns (\<lparr>Width = 0, Height = 0, Cells = []\<rparr>, None)"
    by code_simp
  have s: "HasSuffix ''wide.xp'' ''.xp''"
    by (simp add: HasSuffix_def)
  show ?thesis
    using wf e i s by (simp add: Export_def Import_def)
qed

section \<open>Streams that end early\<close>





















end
